theory Spec2Isabelle
  imports Complex_Main "HOL-Library.AList"
begin

section \<open>The indexing control loop of backend/danswer/background/update.py\<close>

text \<open>
  The module drives four components over a relational store on a fixed cadence:
  \<^verbatim>\<open>check_index_swap\<close>, \<^verbatim>\<open>cleanup_indexing_jobs\<close>, \<^verbatim>\<open>create_indexing_jobs\<close> and
  \<^verbatim>\<open>kickoff_indexing_jobs\<close>. The functions of the module are embedded below, each
  as a function over an explicit world: the tables of the store, the database clock
  and the trace of the calls made on the store gateway, the job handles, the job
  clients and the logger. A Python exception is a value \<open>Inl e\<close>; the world that
  was reached when it was raised is kept, as the writes made before it are committed.
\<close>

subsection \<open>Data model\<close>

datatype IndexingStatus = NOT_STARTED | IN_PROGRESS | SUCCESS | FAILED

datatype IndexModelStatus = PAST | PRESENT | FUTURE

text \<open>
  A \<^verbatim>\<open>datetime\<close> is a number of microseconds; the difference of two is a
  \<^verbatim>\<open>timedelta\<close>, again in microseconds.
\<close>

type_synonym datetime = int
type_synonym timedelta = int

text \<open>
  \<^verbatim>\<open>timedelta.total_seconds()\<close> divides the microseconds by \<open>10\<^sup>6\<close> with Python's true
  division of integers, whose result is the \<^verbatim>\<open>float\<close> (IEEE 754 binary64) nearest to the
  quotient, ties going to the even significand. \<open>nearest_double\<close> is that rounding: a
  nonzero \<open>x\<close> with \<open>2\<^sup>e \<le> \<bar>x\<bar> < 2\<^sup>e\<^sup>+\<^sup>1\<close> is rounded to a multiple of \<open>2\<^sup>e\<^sup>-\<^sup>5\<^sup>2\<close>. The
  exponent range of the format is not modelled: the quotients of a \<^verbatim>\<open>timedelta\<close> lie
  between \<open>10\<^sup>-\<^sup>6\<close> and \<open>10\<^sup>1\<^sup>4\<close> in magnitude, far from it. A \<^verbatim>\<open>float\<close> is kept as the
  real number it denotes, and Python compares a \<^verbatim>\<open>float\<close> with an \<^verbatim>\<open>int\<close> by their exact
  values.
\<close>

definition round_half_even :: "real \<Rightarrow> int" where
  "round_half_even y =
     (let f = \<lfloor>y\<rfloor>; r = y - of_int f
      in if r < 1 / 2 then f else if 1 / 2 < r then f + 1 else if even f then f else f + 1)"

definition nearest_double :: "real \<Rightarrow> real" where
  "nearest_double x =
     (if x = 0 then 0
      else let k = 52 - \<lfloor>log 2 \<bar>x\<bar>\<rfloor>
           in of_int (round_half_even (x * 2 powi k)) / 2 powi k)"

definition total_seconds :: "timedelta \<Rightarrow> real" where
  "total_seconds td = nearest_double (of_int td / 1000000)"

text \<open>
  \<^verbatim>\<open>Connector\<close>: \<^verbatim>\<open>id\<close>, \<^verbatim>\<open>name\<close>, \<^verbatim>\<open>disabled\<close>, \<^verbatim>\<open>refresh_freq\<close> (seconds, or
  \<^verbatim>\<open>None\<close>) and \<^verbatim>\<open>credentials\<close>, the associations, each given by the id of its
  credential.
\<close>

record Connector =
  c_id :: int
  c_name :: string
  c_disabled :: bool
  c_refresh_freq :: "int option"
  c_credentials :: "int list"

record EmbeddingModel =
  m_id :: int
  m_status :: IndexModelStatus

text \<open>
  \<^verbatim>\<open>IndexAttempt\<close>: the foreign keys \<^verbatim>\<open>connector_id\<close> and \<^verbatim>\<open>credential_id\<close> are
  nullable (\<^verbatim>\<open>int | None\<close> in the module), \<^verbatim>\<open>embedding_model_id\<close> is an \<^verbatim>\<open>int\<close>.
  The relationships \<^verbatim>\<open>attempt.connector\<close>, \<^verbatim>\<open>attempt.credential\<close> and
  \<^verbatim>\<open>attempt.embedding_model\<close> are lookups of the key in the store and are
  \<^verbatim>\<open>None\<close> when the row is gone.
\<close>

record IndexAttempt =
  a_id :: int
  connector_id :: "int option"
  credential_id :: "int option"
  embedding_model_id :: int
  a_status :: IndexingStatus
  time_updated :: datetime
  error_msg :: "string option"

record ConnectorCredentialPair =
  cc_connector_id :: int
  cc_credential_id :: int
  last_attempt_status :: "IndexingStatus option"

subsection \<open>Job handles and job clients\<close>

datatype JobStatus = JobPending | JobRunning | JobFinished | JobError

record Job =
  job_status :: JobStatus

text \<open>
  Modelled from the spec: the job handle of \<^verbatim>\<open>danswer.background.indexing.job_client\<close>
  and of dask is not in the sources; \<^verbatim>\<open>handle.done()\<close> is true iff the status is
  \<^verbatim>\<open>finished\<close> or \<^verbatim>\<open>error\<close>.
\<close>

definition done_job :: "Job \<Rightarrow> bool" where
  "done_job job = (job_status job = JobFinished \<or> job_status job = JobError)"

text \<open>
  The tracked-jobs dictionary \<^verbatim>\<open>dict[int, Future | SimpleJob]\<close>, in insertion order.
\<close>

type_synonym jobs = "(int \<times> Job) list"

text \<open>
  A client is what its \<^verbatim>\<open>submit\<close> returns for an attempt id and a number of threads:
  a handle, or \<open>None\<close> for a falsy value.
\<close>

record Client =
  submit :: "int \<Rightarrow> int \<Rightarrow> Job option"

subsection \<open>The world: store, clock and trace\<close>

datatype LogLevel = INFO | WARNING | ERROR | EXCEPTION

datatype ClientName = PrimaryClient | SecondaryClient

datatype Component = CheckIndexSwap | CleanupIndexingJobs | CreateIndexingJobs | KickoffIndexingJobs

datatype Call =
    MarkAttemptFailed int string
  | UpdateConnectorCredentialPair int int IndexingStatus
  | UpdateEmbeddingModelStatus int IndexModelStatus
  | ResyncCCPair int int
  | CreateIndexAttempt int int int
  | MarkAllInProgressCCPairsFailed
  | JobRelease int
  | JobCancel int
  | Submit ClientName int int
  | Log LogLevel string "int list"
  | Enter Component
  | Sleep real

record World =
  connectors :: "Connector list"
  credentials :: "int list"
  embedding_models :: "EmbeddingModel list"
  index_attempts :: "IndexAttempt list"
  cc_pairs :: "ConnectorCredentialPair list"
  db_time :: datetime
  calls :: "Call list"

definition emit :: "Call \<Rightarrow> World \<Rightarrow> World" where
  "emit c w = w\<lparr>calls := calls w @ [c]\<rparr>"

datatype exn = RuntimeError string | AttributeError string

subsection \<open>Store gateway\<close>

text \<open>
  Modelled from the spec: the functions of \<^verbatim>\<open>danswer.db\<close> that the module imports
  are not in the sources. Each is modelled from its contract in the spec's section on
  the store gateway. The rows of \<open>index_attempts\<close> stand in creation order.
\<close>

definition fetch_connectors :: "World \<Rightarrow> Connector list" where
  "fetch_connectors w = connectors w"

definition get_connector_credential_pairs :: "World \<Rightarrow> ConnectorCredentialPair list" where
  "get_connector_credential_pairs w = cc_pairs w"

definition get_secondary_db_embedding_model :: "World \<Rightarrow> EmbeddingModel option" where
  "get_secondary_db_embedding_model w = find (\<lambda>m. m_status m = FUTURE) (embedding_models w)"

text \<open>
  Modelled from the spec: \<^verbatim>\<open>current_model()\<close> is the model whose status is PRESENT;
  the module uses its result without a check, so a store with no such model is an
  exception here.
\<close>

definition get_current_db_embedding_model :: "World \<Rightarrow> exn + EmbeddingModel" where
  "get_current_db_embedding_model w =
     (case find (\<lambda>m. m_status m = PRESENT) (embedding_models w) of
        None \<Rightarrow> Inl (RuntimeError ''No embedding model selected'')
      | Some m \<Rightarrow> Inr m)"

definition get_db_current_time :: "World \<Rightarrow> datetime" where
  "get_db_current_time w = db_time w"

definition get_index_attempt :: "World \<Rightarrow> int \<Rightarrow> IndexAttempt option" where
  "get_index_attempt w index_attempt_id = find (\<lambda>a. a_id a = index_attempt_id) (index_attempts w)"

definition get_last_attempt :: "int \<Rightarrow> int \<Rightarrow> int \<Rightarrow> World \<Rightarrow> IndexAttempt option" where
  "get_last_attempt cid kid mid w =
     find (\<lambda>a. connector_id a = Some cid \<and> credential_id a = Some kid \<and> embedding_model_id a = mid)
       (rev (index_attempts w))"

definition get_not_started_index_attempts :: "World \<Rightarrow> IndexAttempt list" where
  "get_not_started_index_attempts w = filter (\<lambda>a. a_status a = NOT_STARTED) (index_attempts w)"

definition get_inprogress_index_attempts :: "int \<Rightarrow> World \<Rightarrow> IndexAttempt list" where
  "get_inprogress_index_attempts cid w =
     filter (\<lambda>a. connector_id a = Some cid \<and> a_status a = IN_PROGRESS) (index_attempts w)"

definition count_unique_cc_pairs_with_index_attempts :: "int \<Rightarrow> World \<Rightarrow> int" where
  "count_unique_cc_pairs_with_index_attempts mid w =
     int (length (remdups (map (\<lambda>a. (connector_id a, credential_id a))
       (filter (\<lambda>a. embedding_model_id a = mid) (index_attempts w)))))"

definition fresh_attempt_id :: "World \<Rightarrow> int" where
  "fresh_attempt_id w = fold max (map a_id (index_attempts w)) 0 + 1"

definition create_index_attempt :: "int \<Rightarrow> int \<Rightarrow> int \<Rightarrow> World \<Rightarrow> World" where
  "create_index_attempt cid kid mid w =
     emit (CreateIndexAttempt cid kid mid)
       (w\<lparr>index_attempts := index_attempts w @
          [\<lparr>a_id = fresh_attempt_id w, connector_id = Some cid, credential_id = Some kid,
            embedding_model_id = mid, a_status = NOT_STARTED, time_updated = db_time w,
            error_msg = None\<rparr>]\<rparr>)"

text \<open>
  Modelled from the spec: \<^verbatim>\<open>mark_attempt_failed(attempt, reason)\<close> is idempotent, a
  no-op on a row that is already terminal (SUCCESS or FAILED); otherwise the row
  becomes FAILED with the reason.
\<close>

definition is_terminal :: "IndexingStatus \<Rightarrow> bool" where
  "is_terminal st = (st = SUCCESS \<or> st = FAILED)"

definition fail_row :: "int \<Rightarrow> string \<Rightarrow> datetime \<Rightarrow> IndexAttempt \<Rightarrow> IndexAttempt" where
  "fail_row i reason now a =
     (if a_id a = i \<and> \<not> is_terminal (a_status a)
      then a\<lparr>a_status := FAILED, error_msg := Some reason, time_updated := now\<rparr>
      else a)"

definition mark_attempt_failed :: "IndexAttempt \<Rightarrow> World \<Rightarrow> string \<Rightarrow> World" where
  "mark_attempt_failed index_attempt w failure_reason =
     emit (MarkAttemptFailed (a_id index_attempt) failure_reason)
       (w\<lparr>index_attempts :=
            map (fail_row (a_id index_attempt) failure_reason (db_time w)) (index_attempts w)\<rparr>)"

definition set_cc_status :: "int \<Rightarrow> int \<Rightarrow> IndexingStatus \<Rightarrow> ConnectorCredentialPair \<Rightarrow> ConnectorCredentialPair" where
  "set_cc_status cid kid st p =
     (if cc_connector_id p = cid \<and> cc_credential_id p = kid
      then p\<lparr>last_attempt_status := Some st\<rparr> else p)"

definition update_connector_credential_pair :: "World \<Rightarrow> int \<Rightarrow> int \<Rightarrow> IndexingStatus \<Rightarrow> World" where
  "update_connector_credential_pair w cid kid attempt_status =
     emit (UpdateConnectorCredentialPair cid kid attempt_status)
       (w\<lparr>cc_pairs := map (set_cc_status cid kid attempt_status) (cc_pairs w)\<rparr>)"

definition set_model_status :: "int \<Rightarrow> IndexModelStatus \<Rightarrow> EmbeddingModel \<Rightarrow> EmbeddingModel" where
  "set_model_status mid st m = (if m_id m = mid then m\<lparr>m_status := st\<rparr> else m)"

definition update_embedding_model_status :: "EmbeddingModel \<Rightarrow> IndexModelStatus \<Rightarrow> World \<Rightarrow> World" where
  "update_embedding_model_status embedding_model new_status w =
     emit (UpdateEmbeddingModelStatus (m_id embedding_model) new_status)
       (w\<lparr>embedding_models :=
            map (set_model_status (m_id embedding_model) new_status) (embedding_models w)\<rparr>)"

text \<open>The relationships of an attempt row, read through the store.\<close>

definition attempt_connector :: "World \<Rightarrow> IndexAttempt \<Rightarrow> Connector option" where
  "attempt_connector w a =
     (case connector_id a of None \<Rightarrow> None
      | Some cid \<Rightarrow> find (\<lambda>c. c_id c = cid) (connectors w))"

definition attempt_credential :: "World \<Rightarrow> IndexAttempt \<Rightarrow> int option" where
  "attempt_credential w a =
     (case credential_id a of None \<Rightarrow> None
      | Some kid \<Rightarrow> find (\<lambda>k. k = kid) (credentials w))"

definition attempt_embedding_model :: "World \<Rightarrow> IndexAttempt \<Rightarrow> EmbeddingModel option" where
  "attempt_embedding_model w a = find (\<lambda>m. m_id m = embedding_model_id a) (embedding_models w)"

text \<open>
  Modelled from the spec: \<^verbatim>\<open>resync_cc_pair(cc_pair)\<close> recomputes the aggregate of the
  pair, which mirrors the most recent outcome against the PRESENT model.
\<close>

definition latest_present_status :: "World \<Rightarrow> int \<Rightarrow> int \<Rightarrow> IndexingStatus option" where
  "latest_present_status w cid kid =
     map_option a_status
       (find (\<lambda>a. connector_id a = Some cid \<and> credential_id a = Some kid \<and>
                 map_option m_status (attempt_embedding_model w a) = Some PRESENT)
          (rev (index_attempts w)))"

definition resync_row :: "World \<Rightarrow> int \<Rightarrow> int \<Rightarrow> ConnectorCredentialPair \<Rightarrow> ConnectorCredentialPair" where
  "resync_row w cid kid p =
     (if cc_connector_id p = cid \<and> cc_credential_id p = kid
      then p\<lparr>last_attempt_status := latest_present_status w cid kid\<rparr> else p)"

definition resync_cc_pair :: "ConnectorCredentialPair \<Rightarrow> World \<Rightarrow> World" where
  "resync_cc_pair cc_pair w =
     emit (ResyncCCPair (cc_connector_id cc_pair) (cc_credential_id cc_pair))
       (w\<lparr>cc_pairs :=
            map (resync_row w (cc_connector_id cc_pair) (cc_credential_id cc_pair)) (cc_pairs w)\<rparr>)"



subsection \<open>Util funcs\<close>

definition UNEXPECTED_STATE_FAILURE_REASON :: string where
  "UNEXPECTED_STATE_FAILURE_REASON =
     ''Stopped mid run, likely due to the background process being killed''"

text \<open>
  \<^verbatim>\<open>_get_num_threads\<close> reads the configuration constant \<^verbatim>\<open>MIN_THREADS_ML_MODELS\<close> and
  \<^verbatim>\<open>torch.get_num_threads()\<close>; both are given by the machine.
\<close>

record Machine =
  MIN_THREADS_ML_MODELS :: int
  torch_get_num_threads :: int

definition get_num_threads :: "Machine \<Rightarrow> int" where
  "get_num_threads machine = max (MIN_THREADS_ML_MODELS machine) (torch_get_num_threads machine)"

text \<open>
  \<^verbatim>\<open>_should_create_new_indexing\<close>. \<^verbatim>\<open>not last_index\<close> is the test for \<^verbatim>\<open>None\<close>: a row
  object is truthy.
\<close>

definition should_create_new_indexing ::
    "Connector \<Rightarrow> IndexAttempt option \<Rightarrow> EmbeddingModel \<Rightarrow> World \<Rightarrow> bool" where
  "should_create_new_indexing connector last_index model w =
     (if m_status model = FUTURE \<and> last_index = None then
        (if c_id connector = 0 then False else True)
      else if c_disabled connector then False
      else case c_refresh_freq connector of
        None \<Rightarrow> False
      | Some refresh_freq \<Rightarrow>
          (case last_index of
             None \<Rightarrow> True
           | Some last_attempt \<Rightarrow>
               if a_status last_attempt = NOT_STARTED then False
               else
                 let current_db_time = get_db_current_time w;
                     time_since_index = current_db_time - time_updated last_attempt
                 in total_seconds time_since_index \<ge> of_int refresh_freq))"

definition is_indexing_job_marked_as_finished :: "IndexAttempt option \<Rightarrow> bool" where
  "is_indexing_job_marked_as_finished index_attempt =
     (case index_attempt of
        None \<Rightarrow> False
      | Some a \<Rightarrow> a_status a = FAILED \<or> a_status a = SUCCESS)"

text \<open>
  \<^verbatim>\<open>_mark_run_failed\<close>. The condition is evaluated left to right: only when both keys
  are present is \<^verbatim>\<open>index_attempt.embedding_model.status\<close> read, and that read raises
  \<^verbatim>\<open>AttributeError\<close> when the model is \<^verbatim>\<open>None\<close>, after the attempt has been marked.
\<close>

definition mark_run_failed :: "World \<Rightarrow> IndexAttempt \<Rightarrow> string \<Rightarrow> (exn + unit) \<times> World" where
  "mark_run_failed w index_attempt failure_reason =
     (let w1 = emit (Log WARNING ''Marking in-progress attempt as failed'' [a_id index_attempt]) w;
          w2 = mark_attempt_failed index_attempt w1 failure_reason
      in case connector_id index_attempt of
           None \<Rightarrow> (Inr (), w2)
         | Some cid \<Rightarrow>
             (case credential_id index_attempt of
                None \<Rightarrow> (Inr (), w2)
              | Some kid \<Rightarrow>
                  (case attempt_embedding_model w2 index_attempt of
                     None \<Rightarrow> (Inl (AttributeError ''NoneType object has no attribute status''), w2)
                   | Some model \<Rightarrow>
                       if m_status model = PRESENT
                       then (Inr (), update_connector_credential_pair w2 cid kid FAILED)
                       else (Inr (), w2))))"

subsection \<open>Main funcs: the swap check\<close>

text \<open>
  \<^verbatim>\<open>check_index_swap\<close>. \<^verbatim>\<open>len(all_cc_pairs) - 1\<close> is an integer and is \<open>-1\<close> for an
  empty table.
\<close>

definition check_index_swap :: "World \<Rightarrow> (exn + unit) \<times> World" where
  "check_index_swap w =
     (let all_cc_pairs = get_connector_credential_pairs w;
          cc_pair_count = int (length all_cc_pairs) - 1
      in case get_secondary_db_embedding_model w of
           None \<Rightarrow> (Inr (), w)
         | Some embedding_model \<Rightarrow>
             let unique_cc_indexings =
                   count_unique_cc_pairs_with_index_attempts (m_id embedding_model) w
             in if unique_cc_indexings > cc_pair_count then
                  (Inl (RuntimeError ''More unique indexings than cc pairs, should not occur''), w)
                else if cc_pair_count = unique_cc_indexings then
                  (case get_current_db_embedding_model w of
                     Inl e \<Rightarrow> (Inl e, w)
                   | Inr now_old_embedding_model \<Rightarrow>
                       let w1 = update_embedding_model_status now_old_embedding_model PAST w;
                           w2 = update_embedding_model_status embedding_model PRESENT w1
                       in (Inr (), fold resync_cc_pair all_cc_pairs w2))
                else (Inr (), w))"

subsection \<open>Main funcs: the dispatcher\<close>

text \<open>
  \<^verbatim>\<open>kickoff_indexing_jobs\<close>. \<open>kickoff_attempt\<close> is the body of the loop over
  \<^verbatim>\<open>new_indexing_attempts\<close>, whose elements pair an attempt with its embedding model as
  read in the first session; \<^verbatim>\<open>existing_jobs_copy[attempt.id] = run\<close> is the update of
  the dictionary.
\<close>

definition kickoff_attempt ::
    "Machine \<Rightarrow> Client \<Rightarrow> Client \<Rightarrow> IndexAttempt \<times> EmbeddingModel option \<Rightarrow>
     jobs \<times> World \<Rightarrow> jobs \<times> World" where
  "kickoff_attempt machine client secondary_client x s =
     (case (x, s) of ((attempt, embedding_model), (existing_jobs_copy, w)) \<Rightarrow>
        let use_secondary_index =
              (case embedding_model of
                 Some m \<Rightarrow> m_status m = FUTURE
               | None \<Rightarrow> False)
        in if attempt_connector w attempt = None then
             (existing_jobs_copy,
              mark_attempt_failed attempt
                (emit (Log WARNING ''Skipping index attempt as Connector has been deleted''
                   [a_id attempt]) w)
                ''Connector is null'')
           else if attempt_credential w attempt = None then
             (existing_jobs_copy,
              mark_attempt_failed attempt
                (emit (Log WARNING ''Skipping index attempt as Credential has been deleted''
                   [a_id attempt]) w)
                ''Credential is null'')
           else
             let run = (if use_secondary_index
                        then submit secondary_client (a_id attempt) (get_num_threads machine)
                        else submit client (a_id attempt) (get_num_threads machine));
                 w1 = emit (Submit (if use_secondary_index then SecondaryClient else PrimaryClient)
                              (a_id attempt) (get_num_threads machine)) w
             in case run of
                  None \<Rightarrow> (existing_jobs_copy, w1)
                | Some job \<Rightarrow>
                    (AList.update (a_id attempt) job existing_jobs_copy,
                     emit (Log INFO ''Kicked off indexing attempt'' [a_id attempt]) w1))"

definition kickoff_indexing_jobs ::
    "Machine \<Rightarrow> jobs \<Rightarrow> Client \<Rightarrow> Client \<Rightarrow> World \<Rightarrow> jobs \<times> World" where
  "kickoff_indexing_jobs machine existing_jobs client secondary_client w =
     (let existing_jobs_copy = existing_jobs;
          new_indexing_attempts =
            map (\<lambda>attempt. (attempt, attempt_embedding_model w attempt))
              (filter (\<lambda>attempt. a_id attempt \<notin> set (map fst existing_jobs))
                 (get_not_started_index_attempts w));
          w0 = emit (Log INFO ''Found new indexing tasks'' [int (length new_indexing_attempts)]) w
      in if new_indexing_attempts = [] then (existing_jobs, w0)
         else fold (kickoff_attempt machine client secondary_client) new_indexing_attempts
                (existing_jobs_copy, w0))"

subsection \<open>Main funcs: the scheduler\<close>

text \<open>
  \<^verbatim>\<open>create_indexing_jobs\<close>, first loop: the body for one key of \<^verbatim>\<open>existing_jobs\<close>, on the
  set \<^verbatim>\<open>ongoing\<close> and the world.
\<close>

type_synonym triple = "int option \<times> int option \<times> int"

definition ongoing_attempt :: "int \<times> Job \<Rightarrow> triple set \<times> World \<Rightarrow> triple set \<times> World" where
  "ongoing_attempt entry s =
     (case (entry, s) of ((attempt_id, job), (ongoing, w)) \<Rightarrow>
        (case get_index_attempt w attempt_id of
           None \<Rightarrow>
             (ongoing,
              emit (Log ERROR ''Unable to find IndexAttempt for ID when creating indexing jobs''
                      [attempt_id]) w)
         | Some attempt \<Rightarrow>
             (insert (connector_id attempt, credential_id attempt, embedding_model_id attempt)
                ongoing, w)))"

text \<open>
  The body of the innermost loop, for one connector, one of its credentials and one
  embedding model.
\<close>

definition create_for :: "triple set \<Rightarrow> Connector \<Rightarrow> int \<Rightarrow> EmbeddingModel \<Rightarrow> World \<Rightarrow> World" where
  "create_for ongoing connector credential model w =
     (if (Some (c_id connector), Some credential, m_id model) \<in> ongoing then w
      else
        let last_attempt = get_last_attempt (c_id connector) credential (m_id model) w
        in if \<not> should_create_new_indexing connector last_attempt model w then w
           else
             let w1 = create_index_attempt (c_id connector) credential (m_id model) w
             in if m_status model = PRESENT
                then update_connector_credential_pair w1 (c_id connector) credential NOT_STARTED
                else w1)"

definition create_indexing_jobs :: "jobs \<Rightarrow> World \<Rightarrow> (exn + unit) \<times> World" where
  "create_indexing_jobs existing_jobs w =
     (case fold ongoing_attempt existing_jobs ({}, w) of (ongoing, w1) \<Rightarrow>
        (case get_current_db_embedding_model w1 of
           Inl e \<Rightarrow> (Inl e, w1)
         | Inr current \<Rightarrow>
             let embedding_models_list =
                   [current] @ (case get_secondary_db_embedding_model w1 of
                                  None \<Rightarrow> []
                                | Some secondary_embedding_model \<Rightarrow> [secondary_embedding_model]);
                 all_connectors = fetch_connectors w1
             in (Inr (),
                 fold (\<lambda>connector.
                         fold (\<lambda>credential.
                                 fold (create_for ongoing connector credential)
                                   embedding_models_list)
                           (c_credentials connector))
                   all_connectors w1)))"

subsection \<open>Main funcs: the reaper\<close>

text \<open>
  A \<^verbatim>\<open>for\<close> loop whose body may raise: the loop stops at the first exception, in the
  state the body left.
\<close>

fun for_each :: "('a \<Rightarrow> 's \<Rightarrow> (exn + unit) \<times> 's) \<Rightarrow> 'a list \<Rightarrow> 's \<Rightarrow> (exn + unit) \<times> 's" where
  "for_each body [] s = (Inr (), s)"
| "for_each body (x # xs) s =
     (case body x s of
        (Inl e, s') \<Rightarrow> (Inl e, s')
      | (Inr u, s') \<Rightarrow> for_each body xs s')"

text \<open>
  \<^verbatim>\<open>cleanup_indexing_jobs\<close>, first loop: the body for one entry of \<^verbatim>\<open>existing_jobs\<close>,
  on the copy of the dictionary and the world. \<^verbatim>\<open>del existing_jobs_copy[attempt_id]\<close>
  finds its key, as the copy holds every key of the dictionary being walked.
\<close>

definition cleanup_job :: "int \<times> Job \<Rightarrow> jobs \<times> World \<Rightarrow> (exn + unit) \<times> (jobs \<times> World)" where
  "cleanup_job entry s =
     (case (entry, s) of ((attempt_id, job), (existing_jobs_copy, w)) \<Rightarrow>
        let index_attempt = get_index_attempt w attempt_id
        in if \<not> done_job job \<and> \<not> is_indexing_job_marked_as_finished index_attempt then
             (Inr (), (existing_jobs_copy, w))
           else
             let w1 = (if job_status job = JobError
                       then emit (Log ERROR ''job.exception()'' [attempt_id]) w else w);
                 w2 = emit (JobRelease attempt_id) w1;
                 existing_jobs_copy' = AList.delete attempt_id existing_jobs_copy
             in case index_attempt of
                  None \<Rightarrow>
                    (Inr (), (existing_jobs_copy',
                       emit (Log ERROR
                         ''Unable to find IndexAttempt for ID when cleaning up indexing jobs''
                         [attempt_id]) w2))
                | Some attempt \<Rightarrow>
                    if a_status attempt = IN_PROGRESS \<or> job_status job = JobError then
                      (case mark_run_failed w2 attempt UNEXPECTED_STATE_FAILURE_REASON of
                         (r, w3) \<Rightarrow> (r, (existing_jobs_copy', w3)))
                    else (Inr (), (existing_jobs_copy', w2)))"

definition FROZEN_FAILURE_REASON :: string where
  "FROZEN_FAILURE_REASON =
     ''Indexing run frozen - no updates in the last three hours. '' @
     ''The run will be re-attempted at next scheduled indexing time.''"

text \<open>
  Second loop: the body for one in-progress attempt of a connector.
\<close>

definition cleanup_in_progress_attempt ::
    "jobs \<Rightarrow> int \<Rightarrow> IndexAttempt \<Rightarrow> World \<Rightarrow> (exn + unit) \<times> World" where
  "cleanup_in_progress_attempt existing_jobs timeout_hours index_attempt w =
     (if a_id index_attempt \<in> set (map fst existing_jobs) then
        let current_db_time = get_db_current_time w;
            time_since_update = current_db_time - time_updated index_attempt
        in if total_seconds time_since_update > of_int (60 * 60 * timeout_hours) then
             mark_run_failed (emit (JobCancel (a_id index_attempt)) w) index_attempt
               FROZEN_FAILURE_REASON
           else (Inr (), w)
      else mark_run_failed w index_attempt UNEXPECTED_STATE_FAILURE_REASON)"

definition cleanup_connector :: "jobs \<Rightarrow> int \<Rightarrow> Connector \<Rightarrow> World \<Rightarrow> (exn + unit) \<times> World" where
  "cleanup_connector existing_jobs timeout_hours connector w =
     (let in_progress_indexing_attempts = get_inprogress_index_attempts (c_id connector) w
      in for_each (cleanup_in_progress_attempt existing_jobs timeout_hours)
           in_progress_indexing_attempts w)"

text \<open>
  \<^verbatim>\<open>cleanup_indexing_jobs\<close>; \<open>timeout_hours\<close> defaults to the configuration constant
  \<^verbatim>\<open>CLEANUP_INDEXING_JOBS_TIMEOUT\<close>.
\<close>

definition cleanup_indexing_jobs :: "jobs \<Rightarrow> int \<Rightarrow> World \<Rightarrow> (exn + jobs) \<times> World" where
  "cleanup_indexing_jobs existing_jobs timeout_hours w =
     (let existing_jobs_copy = existing_jobs
      in case for_each cleanup_job existing_jobs (existing_jobs_copy, w) of
           (Inl e, (existing_jobs_copy', w1)) \<Rightarrow> (Inl e, w1)
         | (Inr u, (existing_jobs_copy', w1)) \<Rightarrow>
             (let connector_rows = fetch_connectors w1
              in case for_each (cleanup_connector existing_jobs timeout_hours) connector_rows w1 of
                   (Inl e, w2) \<Rightarrow> (Inl e, w2)
                 | (Inr u, w2) \<Rightarrow> (Inr existing_jobs_copy', w2)))"

subsection \<open>The supervisor loop\<close>

text \<open>
  What \<^verbatim>\<open>update_loop\<close> is given: its two clients, the machine, the configuration
  constant \<^verbatim>\<open>CLEANUP_INDEXING_JOBS_TIMEOUT\<close>, its argument \<^verbatim>\<open>delay\<close>, the two readings of
  \<^verbatim>\<open>time.time()\<close> in each iteration (floats, kept as the real numbers they denote), and
  what the workers and the other writers of the store do to the store and to the handles
  between two iterations.
\<close>

record Env =
  client_primary :: Client
  client_secondary :: Client
  machine :: Machine
  CLEANUP_INDEXING_JOBS_TIMEOUT :: int
  delay :: int
  time_time :: "nat \<Rightarrow> real \<times> real"
  outside :: "nat \<Rightarrow> jobs \<times> World \<Rightarrow> jobs \<times> World"







section \<open>Definitions for the statements\<close>

subsection \<open>Reading the trace\<close>

text \<open>
  The calls made between a world and a later one, and the calls about one attempt: the
  marking of its row and the operations on its job.
\<close>

definition new_calls :: "World \<Rightarrow> World \<Rightarrow> Call list" where
  "new_calls w w' = drop (length (calls w)) (calls w')"

fun call_attempt :: "Call \<Rightarrow> int option" where
  "call_attempt (MarkAttemptFailed i r) = Some i"
| "call_attempt (Submit cl i n) = Some i"
| "call_attempt (JobRelease i) = Some i"
| "call_attempt (JobCancel i) = Some i"
| "call_attempt c = None"

definition calls_about :: "int \<Rightarrow> Call list \<Rightarrow> Call list" where
  "calls_about i evs = filter (\<lambda>e. call_attempt e = Some i) evs"

subsection \<open>The swap check\<close>

text \<open>
  The same store with other statuses on its attempt rows: \<open>g\<close> gives each row its
  status.
\<close>

definition with_statuses :: "(IndexAttempt \<Rightarrow> IndexingStatus) \<Rightarrow> World \<Rightarrow> World" where
  "with_statuses g w = w\<lparr>index_attempts := map (\<lambda>a. a\<lparr>a_status := g a\<rparr>) (index_attempts w)\<rparr>"

text \<open>
  A store in the middle of a migration: models 10 (PRESENT) and 20 (FUTURE), the
  ingestion pair and one real pair, and one failed attempt of the real pair against
  model 20.
\<close>

definition migration_store :: World where
  "migration_store =
     \<lparr>connectors = [], credentials = [0, 1],
      embedding_models = [\<lparr>m_id = 10, m_status = PRESENT\<rparr>, \<lparr>m_id = 20, m_status = FUTURE\<rparr>],
      index_attempts =
        [\<lparr>a_id = 1, connector_id = Some 1, credential_id = Some 1, embedding_model_id = 20,
          a_status = FAILED, time_updated = 0, error_msg = Some ''boom''\<rparr>],
      cc_pairs = [\<lparr>cc_connector_id = 0, cc_credential_id = 0, last_attempt_status = None\<rparr>,
                  \<lparr>cc_connector_id = 1, cc_credential_id = 1, last_attempt_status = Some SUCCESS\<rparr>],
      db_time = 100, calls = []\<rparr>"

subsection \<open>The dispatcher\<close>

text \<open>
  The choice of the client, as \<^verbatim>\<open>use_secondary_index\<close> makes it, and the handle that
  \<^verbatim>\<open>submit\<close> returns.
\<close>

definition use_secondary :: "EmbeddingModel option \<Rightarrow> bool" where
  "use_secondary em = (map_option m_status em = Some FUTURE)"

definition chosen_client :: "EmbeddingModel option \<Rightarrow> ClientName" where
  "chosen_client em = (if use_secondary em then SecondaryClient else PrimaryClient)"

definition submitted :: "Machine \<Rightarrow> Client \<Rightarrow> Client \<Rightarrow> IndexAttempt \<Rightarrow> EmbeddingModel option \<Rightarrow> Job option" where
  "submitted m c s a em =
     submit (if use_secondary em then s else c) (a_id a) (get_num_threads m)"

text \<open>
  What the loop does for one attempt: the calls about it, its row afterwards and its
  entry in the dictionary, given the entry before.
\<close>

definition kickoff_outcome ::
    "Machine \<Rightarrow> Client \<Rightarrow> Client \<Rightarrow> World \<Rightarrow> IndexAttempt \<Rightarrow> EmbeddingModel option \<Rightarrow>
     Job option \<Rightarrow> Call list \<times> IndexAttempt \<times> Job option" where
  "kickoff_outcome m c s w a em prior =
     (if attempt_connector w a = None then
        ([MarkAttemptFailed (a_id a) ''Connector is null''],
         a\<lparr>a_status := FAILED, error_msg := Some ''Connector is null'', time_updated := db_time w\<rparr>,
         prior)
      else if attempt_credential w a = None then
        ([MarkAttemptFailed (a_id a) ''Credential is null''],
         a\<lparr>a_status := FAILED, error_msg := Some ''Credential is null'', time_updated := db_time w\<rparr>,
         prior)
      else
        ([Submit (chosen_client em) (a_id a) (get_num_threads m)], a,
         case submitted m c s a em of None \<Rightarrow> prior | Some job \<Rightarrow> Some job))"

text \<open>
  A store with five attempts waiting: attempt 1 has lost its connector, attempt 2 its
  credential, attempt 3 is for the FUTURE model 20, attempt 4 for the PRESENT model 10
  and attempt 5 for a model that is gone. The primary client returns a handle, the
  secondary client a falsy value.
\<close>

definition waiting :: "int \<Rightarrow> int \<Rightarrow> int \<Rightarrow> int \<Rightarrow> IndexAttempt" where
  "waiting i cid kid mid =
     \<lparr>a_id = i, connector_id = Some cid, credential_id = Some kid, embedding_model_id = mid,
      a_status = NOT_STARTED, time_updated = 0, error_msg = None\<rparr>"

definition dispatch_store :: World where
  "dispatch_store =
     \<lparr>connectors = [\<lparr>c_id = 1, c_name = ''web'', c_disabled = False, c_refresh_freq = Some 60,
                      c_credentials = [1]\<rparr>],
      credentials = [1],
      embedding_models = [\<lparr>m_id = 10, m_status = PRESENT\<rparr>, \<lparr>m_id = 20, m_status = FUTURE\<rparr>],
      index_attempts = [waiting 1 9 1 10, waiting 2 1 9 10, waiting 3 1 1 20, waiting 4 1 1 10,
                        waiting 5 1 1 30],
      cc_pairs = [\<lparr>cc_connector_id = 1, cc_credential_id = 1, last_attempt_status = Some NOT_STARTED\<rparr>],
      db_time = 100, calls = []\<rparr>"

definition machine4 :: Machine where
  "machine4 = \<lparr>MIN_THREADS_ML_MODELS = 1, torch_get_num_threads = 4\<rparr>"

definition handing_client :: Client where
  "handing_client = \<lparr>submit = (\<lambda>i n. Some \<lparr>job_status = JobPending\<rparr>)\<rparr>"

definition falsy_client :: Client where
  "falsy_client = \<lparr>submit = (\<lambda>i n. None)\<rparr>"

subsection \<open>The reaper\<close>

text \<open>
  How a world evolves under the reaper: the tables it never writes stay, the keys of the
  attempt rows stay, the trace grows, and every update of a pair that it makes sets FAILED
  on a pair that has an attempt of the PRESENT model. An attempt is untouched when
  moreover its row stays and no call is about it.
\<close>

definition attempt_keys :: "IndexAttempt \<Rightarrow> int \<times> int option \<times> int option \<times> int" where
  "attempt_keys a = (a_id a, connector_id a, credential_id a, embedding_model_id a)"

definition present_pair :: "World \<Rightarrow> int \<Rightarrow> int \<Rightarrow> bool" where
  "present_pair w c k =
     (\<exists>b \<in> set (index_attempts w). connector_id b = Some c \<and> credential_id b = Some k \<and>
        map_option m_status (attempt_embedding_model w b) = Some PRESENT)"

fun justified_call :: "World \<Rightarrow> Call \<Rightarrow> bool" where
  "justified_call w (UpdateConnectorCredentialPair c k st) = (st = FAILED \<and> present_pair w c k)"
| "justified_call w e = True"

definition evolves :: "World \<Rightarrow> World \<Rightarrow> bool" where
  "evolves w w' =
     (connectors w' = connectors w \<and> credentials w' = credentials w \<and>
      embedding_models w' = embedding_models w \<and> db_time w' = db_time w \<and>
      map attempt_keys (index_attempts w') = map attempt_keys (index_attempts w) \<and>
      (\<exists>evs. calls w' = calls w @ evs \<and> list_all (justified_call w) evs))"

definition untouched :: "int \<Rightarrow> World \<Rightarrow> World \<Rightarrow> bool" where
  "untouched i w w' =
     (evolves w w' \<and> get_index_attempt w' i = get_index_attempt w i \<and>
      calls_about i (new_calls w w') = [])"

definition key_member :: "IndexAttempt \<Rightarrow> World \<Rightarrow> bool" where
  "key_member b w = (attempt_keys b \<in> set (map attempt_keys (index_attempts w)))"

definition cc_update_calls :: "World \<Rightarrow> IndexAttempt \<Rightarrow> Call list" where
  "cc_update_calls w a =
     (case connector_id a of
        None \<Rightarrow> []
      | Some c \<Rightarrow>
          (case credential_id a of
             None \<Rightarrow> []
           | Some k \<Rightarrow>
               if map_option m_status (attempt_embedding_model w a) = Some PRESENT
               then [UpdateConnectorCredentialPair c k FAILED] else []))"

text \<open>
  An update of a pair; a stretch of the trace that does not begin with one; and a world
  whose trace has grown by such a stretch.
\<close>

fun is_pair_update :: "Call \<Rightarrow> bool" where
  "is_pair_update (UpdateConnectorCredentialPair c k st) = True"
| "is_pair_update e = False"

definition no_update_first :: "Call list \<Rightarrow> bool" where
  "no_update_first evs = list_all (\<lambda>e. \<not> is_pair_update e) (take 1 evs)"

definition headed :: "World \<Rightarrow> World \<Rightarrow> bool" where
  "headed w w' = (\<exists>evs. calls w' = calls w @ evs \<and> no_update_first evs)"

definition selects :: "Connector \<Rightarrow> IndexAttempt option \<Rightarrow> bool" where
  "selects c row =
     (case row of None \<Rightarrow> False
      | Some r \<Rightarrow> connector_id r = Some (c_id c) \<and> a_status r = IN_PROGRESS)"

text \<open>Every attempt row has its embedding model.\<close>

definition models_exist :: "World \<Rightarrow> bool" where
  "models_exist w = list_all (\<lambda>b. attempt_embedding_model w b \<noteq> None) (index_attempts w)"

text \<open>
  Stores for the reaper: one connector (id 1), the models 10 (PRESENT) and 20 (FUTURE), the
  given attempt rows, all IN_PROGRESS, and a database time of four hours.
\<close>

definition running :: "int \<Rightarrow> int option \<Rightarrow> int \<Rightarrow> datetime \<Rightarrow> IndexAttempt" where
  "running i cid mid updated =
     \<lparr>a_id = i, connector_id = cid, credential_id = Some 1, embedding_model_id = mid,
      a_status = IN_PROGRESS, time_updated = updated, error_msg = None\<rparr>"

definition reaper_store :: "IndexAttempt list \<Rightarrow> World" where
  "reaper_store rows =
     \<lparr>connectors = [\<lparr>c_id = 1, c_name = ''web'', c_disabled = False, c_refresh_freq = Some 60,
                      c_credentials = [1]\<rparr>],
      credentials = [1],
      embedding_models = [\<lparr>m_id = 10, m_status = PRESENT\<rparr>, \<lparr>m_id = 20, m_status = FUTURE\<rparr>],
      index_attempts = rows,
      cc_pairs = [\<lparr>cc_connector_id = 1, cc_credential_id = 1, last_attempt_status = Some IN_PROGRESS\<rparr>],
      db_time = 14400000000, calls = []\<rparr>"

definition job_in :: "JobStatus \<Rightarrow> Job" where
  "job_in st = \<lparr>job_status = st\<rparr>"

subsection \<open>The scheduler\<close>

text \<open>
  The triple of an attempt row, the triples of the tracked ids that have a row, and the
  error lines for those that have none. Relative to a triple \<open>(c, k, m)\<close>: a world in
  which the clock and the last attempt of the triple are as before and the trace has
  grown; and a world in which an attempt has been created for the triple and is its last
  attempt, NOT_STARTED.
\<close>

definition attempt_triple :: "IndexAttempt \<Rightarrow> triple" where
  "attempt_triple a = (connector_id a, credential_id a, embedding_model_id a)"

definition tracked_triples :: "jobs \<Rightarrow> World \<Rightarrow> triple set" where
  "tracked_triples existing_jobs w =
     {attempt_triple a | a. \<exists>i \<in> set (map fst existing_jobs). get_index_attempt w i = Some a}"

definition missing_logs :: "jobs \<Rightarrow> World \<Rightarrow> Call list" where
  "missing_logs existing_jobs w =
     map (\<lambda>i. Log ERROR ''Unable to find IndexAttempt for ID when creating indexing jobs'' [i])
       (filter (\<lambda>i. get_index_attempt w i = None) (map fst existing_jobs))"

definition scheduler_frame :: "int \<Rightarrow> int \<Rightarrow> int \<Rightarrow> World \<Rightarrow> World \<Rightarrow> bool" where
  "scheduler_frame c k m w w' =
     (db_time w' = db_time w \<and> get_last_attempt c k m w' = get_last_attempt c k m w \<and>
      (\<exists>evs. calls w' = calls w @ evs))"

definition scheduled :: "int \<Rightarrow> int \<Rightarrow> int \<Rightarrow> World \<Rightarrow> World \<Rightarrow> bool" where
  "scheduled c k m w w' =
     ((\<exists>row. get_last_attempt c k m w' = Some row \<and> a_status row = NOT_STARTED) \<and>
      (\<exists>evs. calls w' = calls w @ evs \<and> CreateIndexAttempt c k m \<in> set evs))"

subsection \<open>The supervisor loop\<close>

text \<open>
  The calls that the four components make: everything but the entry markers, the sleeps,
  the start-up call and the exception lines, which are the supervisor's own. A world
  grows when its trace is extended by calls of the components.
\<close>

fun component_call :: "Call \<Rightarrow> bool" where
  "component_call (Enter c) = False"
| "component_call (Sleep d) = False"
| "component_call MarkAllInProgressCCPairsFailed = False"
| "component_call (Log level msg args) = (level \<noteq> EXCEPTION)"
| "component_call e = True"

definition grows :: "World \<Rightarrow> World \<Rightarrow> bool" where
  "grows w w' = (\<exists>evs. calls w' = calls w @ evs \<and> list_all component_call evs)"


fun entries :: "Call \<Rightarrow> Component list" where
  "entries (Enter c) = [c]"
| "entries e = []"

definition entered :: "Call list \<Rightarrow> Component list" where
  "entered evs = concat (map entries evs)"

fun naps :: "Call \<Rightarrow> real list" where
  "naps (Sleep d) = [d]"
| "naps e = []"

definition slept :: "Call list \<Rightarrow> real list" where
  "slept evs = concat (map naps evs)"

fun is_exception_log :: "Call \<Rightarrow> bool" where
  "is_exception_log (Log level msg args) = (level = EXCEPTION)"
| "is_exception_log e = False"

definition caught :: "Call list \<Rightarrow> Call list" where
  "caught evs = filter is_exception_log evs"

definition startups :: "Call list \<Rightarrow> Call list" where
  "startups evs = filter (\<lambda>e. e = MarkAllInProgressCCPairsFailed) evs"





section \<open>Properties\<close>

subsection \<open>The rounding of \<^verbatim>\<open>total_seconds\<close>\<close>

lemma floor_bounds: "real_of_int \<lfloor>y\<rfloor> \<le> y \<and> y < real_of_int \<lfloor>y\<rfloor> + 1"
  by linarith

lemma round_half_even_cases:
  "round_half_even y = \<lfloor>y\<rfloor> \<and> y - of_int \<lfloor>y\<rfloor> \<le> 1 / 2 \<or>
   round_half_even y = \<lfloor>y\<rfloor> + 1 \<and> 1 / 2 \<le> y - of_int \<lfloor>y\<rfloor>"
  unfolding round_half_even_def Let_def by auto

lemma round_half_even_ge: "of_int m \<le> y \<Longrightarrow> m \<le> round_half_even y"
proof -
  assume "of_int m \<le> y"
  then have "m \<le> \<lfloor>y\<rfloor>" by (simp add: le_floor_iff)
  then show ?thesis using round_half_even_cases [of y] by auto
qed

lemma round_half_even_le: "y \<le> of_int m \<Longrightarrow> round_half_even y \<le> m"
proof -
  assume a: "y \<le> of_int m"
  have c: "round_half_even y = \<lfloor>y\<rfloor> \<or>
           round_half_even y = \<lfloor>y\<rfloor> + 1 \<and> 1 / 2 \<le> y - of_int \<lfloor>y\<rfloor>"
    using round_half_even_cases [of y] by blast
  have f: "\<lfloor>y\<rfloor> \<le> m" using a by (simp add: floor_le_iff)
  { assume "1 / 2 \<le> y - of_int \<lfloor>y\<rfloor>"
    then have "real_of_int \<lfloor>y\<rfloor> < real_of_int m" using a by linarith
    then have "\<lfloor>y\<rfloor> + 1 \<le> m" by simp }
  then show ?thesis using c f by auto
qed

lemma round_half_even_less: "y < of_int m - 1 / 2 \<Longrightarrow> round_half_even y < m"
proof -
  assume a: "y < of_int m - 1 / 2"
  have c: "round_half_even y = \<lfloor>y\<rfloor> \<or>
           round_half_even y = \<lfloor>y\<rfloor> + 1 \<and> 1 / 2 \<le> y - of_int \<lfloor>y\<rfloor>"
    using round_half_even_cases [of y] by blast
  have "real_of_int \<lfloor>y\<rfloor> < real_of_int m" using a floor_bounds [of y] by linarith
  then have f: "\<lfloor>y\<rfloor> < m" by simp
  { assume "1 / 2 \<le> y - of_int \<lfloor>y\<rfloor>"
    then have "real_of_int \<lfloor>y\<rfloor> + 1 < real_of_int m" using a by linarith
    then have "real_of_int (\<lfloor>y\<rfloor> + 1) < real_of_int m" by simp
    then have "\<lfloor>y\<rfloor> + 1 < m" by (simp only: of_int_less_iff) }
  then show ?thesis using c f by auto
qed

lemma round_half_even_greater: "of_int m + 1 / 2 < y \<Longrightarrow> m < round_half_even y"
proof -
  assume a: "of_int m + 1 / 2 < y"
  have c: "round_half_even y = \<lfloor>y\<rfloor> \<and> y - of_int \<lfloor>y\<rfloor> \<le> 1 / 2 \<or>
           round_half_even y = \<lfloor>y\<rfloor> + 1"
    using round_half_even_cases [of y] by blast
  have "real_of_int m < real_of_int \<lfloor>y\<rfloor> + 1" using a floor_bounds [of y] by linarith
  then have "real_of_int m < real_of_int (\<lfloor>y\<rfloor> + 1)" by simp
  then have f: "m < \<lfloor>y\<rfloor> + 1" by (simp only: of_int_less_iff)
  { assume "y - of_int \<lfloor>y\<rfloor> \<le> 1 / 2"
    then have "real_of_int m < real_of_int \<lfloor>y\<rfloor>" using a by linarith
    then have "m < \<lfloor>y\<rfloor>" by simp }
  then show ?thesis using c f by auto
qed

text \<open>The exponent of a value below \<open>2\<^sup>3\<^sup>4\<close>.\<close>

lemma exponent_below:
  assumes "x \<noteq> 0" and "\<bar>x\<bar> < 2 ^ 34"
  shows "\<lfloor>log 2 \<bar>x\<bar>\<rfloor> \<le> 33"
proof -
  have "log 2 \<bar>x\<bar> < log 2 (2 ^ 34)" using assms by (intro log_less) auto
  then have "log 2 \<bar>x\<bar> < 34" using log_pow_cancel [of 2 34] by simp
  then show ?thesis by (simp add: floor_le_iff)
qed

lemma scale_ge:
  assumes "19 \<le> k"
  shows "(2::real) powi k = 2 ^ nat k" and "(2::real) ^ 19 \<le> 2 powi k"
proof -
  show e: "(2::real) powi k = 2 ^ nat k" using assms by (simp add: power_int_def)
  have "(2::real) ^ 19 \<le> 2 ^ nat k" using assms by (intro power_increasing) auto
  then show "(2::real) ^ 19 \<le> 2 powi k" using e by simp
qed

lemma nearest_double_ge_iff:
  assumes r: "\<bar>td\<bar> < 2 ^ 34 * 1000000"
  shows "of_int f \<le> nearest_double (of_int td / 1000000) \<longleftrightarrow> 1000000 * f \<le> td"
proof (cases "td = 0")
  case True
  then show ?thesis by (simp add: nearest_double_def)
next
  case False
  define x :: real where "x = of_int td / 1000000"
  define k where "k = 52 - \<lfloor>log 2 \<bar>x\<bar>\<rfloor>"
  define s :: real where "s = 2 powi k"
  have x0: "x \<noteq> 0" using False by (simp add: x_def)
  have "real_of_int \<bar>td\<bar> < real_of_int (2 ^ 34 * 1000000)"
    using r by (simp only: of_int_less_iff)
  then have xb: "\<bar>x\<bar> < 2 ^ 34" by (simp add: x_def)
  have k19: "19 \<le> k" using exponent_below [OF x0 xb] by (simp add: k_def)
  have s: "s = 2 ^ nat k" "2 ^ 19 \<le> s" using scale_ge [OF k19] by (simp_all add: s_def)
  have spos: "0 < s" using s by simp
  have nd: "nearest_double x = of_int (round_half_even (x * s)) / s"
    using x0 by (simp add: nearest_double_def k_def s_def Let_def)
  have fs: "of_int f * s = of_int (f * 2 ^ nat k)" by (simp add: s)
  show ?thesis
  proof
    assume "of_int f \<le> nearest_double (of_int td / 1000000)"
    then have "of_int f * s \<le> of_int (round_half_even (x * s))"
      using spos by (simp add: nd x_def [symmetric] pos_le_divide_eq)
    then have le: "f * 2 ^ nat k \<le> round_half_even (x * s)"
      unfolding fs by (simp only: of_int_le_iff)
    show "1000000 * f \<le> td"
    proof (rule ccontr)
      assume "\<not> 1000000 * f \<le> td"
      then have "td \<le> 1000000 * f - 1" by simp
      then have "real_of_int td \<le> real_of_int (1000000 * f - 1)" by (simp only: of_int_le_iff)
      then have "x \<le> of_int f - 1 / 1000000" by (simp add: x_def)
      then have "x * s \<le> (of_int f - 1 / 1000000) * s"
        using spos by (simp add: mult_right_mono)
      also have "\<dots> = of_int (f * 2 ^ nat k) - s / 1000000" by (simp add: algebra_simps s)
      also have "\<dots> < of_int (f * 2 ^ nat k) - 1 / 2" using s(2) by simp
      finally have "round_half_even (x * s) < f * 2 ^ nat k" by (rule round_half_even_less)
      then show False using le by simp
    qed
  next
    assume "1000000 * f \<le> td"
    then have "real_of_int (1000000 * f) \<le> real_of_int td" by (simp only: of_int_le_iff)
    then have "of_int f \<le> x" by (simp add: x_def)
    then have "of_int f * s \<le> x * s" using spos by (simp add: mult_right_mono)
    then have "of_int (f * 2 ^ nat k) \<le> x * s" unfolding fs .
    then have "f * 2 ^ nat k \<le> round_half_even (x * s)" by (rule round_half_even_ge)
    then have "real_of_int (f * 2 ^ nat k) \<le> of_int (round_half_even (x * s))"
      by (simp only: of_int_le_iff)
    then have "of_int f * s \<le> of_int (round_half_even (x * s))" unfolding fs .
    then show "of_int f \<le> nearest_double (of_int td / 1000000)"
      using spos by (simp add: nd x_def [symmetric] pos_le_divide_eq)
  qed
qed

lemma nearest_double_less_iff:
  assumes r: "\<bar>td\<bar> < 2 ^ 34 * 1000000"
  shows "of_int g < nearest_double (of_int td / 1000000) \<longleftrightarrow> 1000000 * g < td"
proof (cases "td = 0")
  case True
  then show ?thesis by (simp add: nearest_double_def)
next
  case False
  define x :: real where "x = of_int td / 1000000"
  define k where "k = 52 - \<lfloor>log 2 \<bar>x\<bar>\<rfloor>"
  define s :: real where "s = 2 powi k"
  have x0: "x \<noteq> 0" using False by (simp add: x_def)
  have "real_of_int \<bar>td\<bar> < real_of_int (2 ^ 34 * 1000000)"
    using r by (simp only: of_int_less_iff)
  then have xb: "\<bar>x\<bar> < 2 ^ 34" by (simp add: x_def)
  have k19: "19 \<le> k" using exponent_below [OF x0 xb] by (simp add: k_def)
  have s: "s = 2 ^ nat k" "2 ^ 19 \<le> s" using scale_ge [OF k19] by (simp_all add: s_def)
  have spos: "0 < s" using s by simp
  have nd: "nearest_double x = of_int (round_half_even (x * s)) / s"
    using x0 by (simp add: nearest_double_def k_def s_def Let_def)
  have gs: "of_int g * s = of_int (g * 2 ^ nat k)" by (simp add: s)
  show ?thesis
  proof
    assume "of_int g < nearest_double (of_int td / 1000000)"
    then have "of_int g * s < of_int (round_half_even (x * s))"
      using spos by (simp add: nd x_def [symmetric] pos_less_divide_eq)
    then have less: "g * 2 ^ nat k < round_half_even (x * s)"
      unfolding gs by (simp only: of_int_less_iff)
    show "1000000 * g < td"
    proof (rule ccontr)
      assume "\<not> 1000000 * g < td"
      then have "td \<le> 1000000 * g" by simp
      then have "real_of_int td \<le> real_of_int (1000000 * g)" by (simp only: of_int_le_iff)
      then have "x \<le> of_int g" by (simp add: x_def)
      then have "x * s \<le> of_int g * s" using spos by (simp add: mult_right_mono)
      then have "x * s \<le> of_int (g * 2 ^ nat k)" unfolding gs .
      then have "round_half_even (x * s) \<le> g * 2 ^ nat k" by (rule round_half_even_le)
      then show False using less by simp
    qed
  next
    assume "1000000 * g < td"
    then have "1000000 * g + 1 \<le> td" by simp
    then have "real_of_int (1000000 * g + 1) \<le> real_of_int td" by (simp only: of_int_le_iff)
    then have "of_int g + 1 / 1000000 \<le> x" by (simp add: x_def)
    then have "(of_int g + 1 / 1000000) * s \<le> x * s" using spos by (simp add: mult_right_mono)
    moreover have "(of_int g + 1 / 1000000) * s = of_int (g * 2 ^ nat k) + s / 1000000"
      by (simp add: algebra_simps s)
    moreover have "of_int (g * 2 ^ nat k) + 1 / 2 < of_int (g * 2 ^ nat k) + s / 1000000"
      using s(2) by simp
    ultimately have "of_int (g * 2 ^ nat k) + 1 / 2 < x * s" by linarith
    then have "g * 2 ^ nat k < round_half_even (x * s)" by (rule round_half_even_greater)
    then have "real_of_int (g * 2 ^ nat k) < of_int (round_half_even (x * s))"
      by (simp only: of_int_less_iff)
    then have "of_int g * s < of_int (round_half_even (x * s))" unfolding gs .
    then show "of_int g < nearest_double (of_int td / 1000000)"
      using spos by (simp add: nd x_def [symmetric] pos_less_divide_eq)
  qed
qed

lemma nearest_double_nonneg: "0 \<le> x \<Longrightarrow> 0 \<le> nearest_double x"
proof -
  assume a: "0 \<le> x"
  { fix k :: int
    have p: "(0::real) < 2 powi k" by (simp add: zero_less_power_int)
    then have "real_of_int 0 \<le> x * 2 powi k" using a by simp
    then have "0 \<le> round_half_even (x * 2 powi k)" by (rule round_half_even_ge)
    then have "0 \<le> real_of_int (round_half_even (x * 2 powi k)) / 2 powi k"
      using p by simp }
  then show ?thesis by (simp add: nearest_double_def Let_def)
qed

text \<open>The value in the binade \<open>[2\<^sup>n, 2\<^sup>n\<^sup>+\<^sup>1)\<close>.\<close>

lemma nearest_double_binade:
  assumes "2 ^ n \<le> x" and "x < 2 ^ Suc n" and "n \<le> 52"
  shows "nearest_double x = of_int (round_half_even (x * 2 ^ (52 - n))) / 2 ^ (52 - n)"
proof -
  have pos: "0 < x" using assms(1) by (rule less_le_trans [rotated]) simp
  have "(2::real) powr (real (Suc n)) = 2 ^ Suc n" by (rule powr_realpow) simp
  moreover have "(2::real) powr (real n) = 2 ^ n" by (rule powr_realpow) simp
  ultimately have "2 powr (real_of_int (int n)) \<le> x \<and> x < 2 powr (real_of_int (int n + 1))"
    using assms by (simp add: add.commute)
  then have "\<lfloor>log 2 x\<rfloor> = int n" using pos by (simp add: floor_log_eq_powr_iff)
  then have "52 - \<lfloor>log 2 \<bar>x\<bar>\<rfloor> = int (52 - n)" using pos assms(3) by simp
  then show ?thesis using pos by (simp add: nearest_double_def Let_def)
qed





















text \<open>
  Below \<open>2\<^sup>3\<^sup>4\<close> seconds two doubles are less than two microseconds apart, so the rounding
  of \<^verbatim>\<open>total_seconds\<close> does not change how a whole number of microseconds compares with
  a whole number of seconds.
\<close>

lemma total_seconds_ge_iff:
  "\<bar>td\<bar> < 2 ^ 34 * 1000000 \<Longrightarrow> of_int f \<le> total_seconds td \<longleftrightarrow> 1000000 * f \<le> td"
  unfolding total_seconds_def by (rule nearest_double_ge_iff)

lemma total_seconds_less_iff:
  "\<bar>td\<bar> < 2 ^ 34 * 1000000 \<Longrightarrow> of_int g < total_seconds td \<longleftrightarrow> 1000000 * g < td"
  unfolding total_seconds_def by (rule nearest_double_less_iff)

lemma total_seconds_nonneg: "0 \<le> td \<Longrightarrow> 0 \<le> total_seconds td"
  unfolding total_seconds_def by (rule nearest_double_nonneg) simp

text \<open>Four hours and three hours, in microseconds.\<close>

lemma total_seconds_four_hours: "total_seconds 14400000000 = 14400"
  unfolding total_seconds_def
  by (subst nearest_double_binade [of 13]) (simp_all add: round_half_even_def Let_def)

lemma total_seconds_three_hours: "total_seconds 10800000000 = 10800"
  unfolding total_seconds_def
  by (subst nearest_double_binade [of 13]) (simp_all add: round_half_even_def Let_def)

subsection \<open>The scheduling predicate\<close>

text \<open>
  C2. For every connector and every model whose status is FUTURE, when there is no
  prior attempt, \<^verbatim>\<open>_should_create_new_indexing\<close> is true if and only if the
  connector's id is not 0, whatever \<^verbatim>\<open>disabled\<close> and \<^verbatim>\<open>refresh_freq\<close> are: a disabled
  connector is scheduled, the ingestion pseudo-connector (id 0) never is.
\<close>

theorem should_create_future_first_build:
  "m_status model = FUTURE \<longrightarrow>
     (should_create_new_indexing connector None model w \<longleftrightarrow> c_id connector \<noteq> 0)"
  by (simp add: should_create_new_indexing_def)

theorem should_create_future_first_build_witness:
  "should_create_new_indexing
     \<lparr>c_id = 5, c_name = ''web'', c_disabled = True, c_refresh_freq = None, c_credentials = [1]\<rparr>
     None \<lparr>m_id = 20, m_status = FUTURE\<rparr>
     \<lparr>connectors = [], credentials = [], embedding_models = [], index_attempts = [],
      cc_pairs = [], db_time = 0, calls = []\<rparr>
   \<and> \<not> should_create_new_indexing
     \<lparr>c_id = 0, c_name = ''ingestion'', c_disabled = False, c_refresh_freq = Some 60, c_credentials = [1]\<rparr>
     None \<lparr>m_id = 20, m_status = FUTURE\<rparr>
     \<lparr>connectors = [], credentials = [], embedding_models = [], index_attempts = [],
      cc_pairs = [], db_time = 0, calls = []\<rparr>"
  using should_create_future_first_build
    [of "\<lparr>m_id = 20, m_status = FUTURE\<rparr>"
        "\<lparr>c_id = 5, c_name = ''web'', c_disabled = True, c_refresh_freq = None, c_credentials = [1]\<rparr>"
        "\<lparr>connectors = [], credentials = [], embedding_models = [], index_attempts = [],
          cc_pairs = [], db_time = 0, calls = []\<rparr>"]
    should_create_future_first_build
    [of "\<lparr>m_id = 20, m_status = FUTURE\<rparr>"
        "\<lparr>c_id = 0, c_name = ''ingestion'', c_disabled = False, c_refresh_freq = Some 60, c_credentials = [1]\<rparr>"
        "\<lparr>connectors = [], credentials = [], embedding_models = [], index_attempts = [],
          cc_pairs = [], db_time = 0, calls = []\<rparr>"]
  by simp

text \<open>
  C3 (amended). The cadence rule. For an enabled connector with \<^verbatim>\<open>refresh_freq\<close> set
  and a last attempt whose status is not NOT_STARTED (so the first-build rule for a
  FUTURE model does not apply), \<^verbatim>\<open>_should_create_new_indexing\<close> is true if and only if
  \<^verbatim>\<open>total_seconds()\<close> of the time since the last update, the double nearest to the
  seconds elapsed, is at least \<^verbatim>\<open>refresh_freq\<close>. When the time since the last update is
  below \<open>2\<^sup>3\<^sup>4\<close> seconds in magnitude, this is: if and only if the time since the last
  update is at least \<^verbatim>\<open>refresh_freq\<close> seconds; the comparison is not strict, a time of
  exactly \<^verbatim>\<open>refresh_freq\<close> seconds schedules. With \<^verbatim>\<open>refresh_freq = 0\<close> every tick at or
  after the last update of a terminal attempt schedules. A last attempt in NOT_STARTED
  never schedules, whatever the connector and the model are.
\<close>

theorem should_create_cadence:
  "(\<not> c_disabled connector \<and> c_refresh_freq connector = Some refresh_freq \<and>
      a_status last_attempt \<noteq> NOT_STARTED \<longrightarrow>
      (should_create_new_indexing connector (Some last_attempt) model w \<longleftrightarrow>
         total_seconds (get_db_current_time w - time_updated last_attempt) \<ge> of_int refresh_freq) \<and>
      (\<bar>get_db_current_time w - time_updated last_attempt\<bar> < 2 ^ 34 * 1000000 \<longrightarrow>
         (should_create_new_indexing connector (Some last_attempt) model w \<longleftrightarrow>
            1000000 * refresh_freq \<le> get_db_current_time w - time_updated last_attempt)) \<and>
      (\<bar>get_db_current_time w - time_updated last_attempt\<bar> < 2 ^ 34 * 1000000 \<and>
         get_db_current_time w - time_updated last_attempt = 1000000 * refresh_freq \<longrightarrow>
         should_create_new_indexing connector (Some last_attempt) model w) \<and>
      (refresh_freq = 0 \<and> is_terminal (a_status last_attempt) \<and>
         time_updated last_attempt \<le> get_db_current_time w \<longrightarrow>
         should_create_new_indexing connector (Some last_attempt) model w))
   \<and> (a_status last_attempt = NOT_STARTED \<longrightarrow>
         \<not> should_create_new_indexing connector' (Some last_attempt) model w)"
proof -
  define td where "td = get_db_current_time w - time_updated last_attempt"
  have code: "should_create_new_indexing connector (Some last_attempt) model w \<longleftrightarrow>
      of_int refresh_freq \<le> total_seconds td"
    if "\<not> c_disabled connector" "c_refresh_freq connector = Some refresh_freq"
      "a_status last_attempt \<noteq> NOT_STARTED"
    using that by (simp add: should_create_new_indexing_def Let_def td_def)
  have exact: "of_int refresh_freq \<le> total_seconds td \<longleftrightarrow> 1000000 * refresh_freq \<le> td"
    if "\<bar>td\<bar> < 2 ^ 34 * 1000000"
    using that by (rule total_seconds_ge_iff)
  have zero: "of_int refresh_freq \<le> total_seconds td" if "refresh_freq = 0" "0 \<le> td"
    using that total_seconds_nonneg [of td] by simp
  have never: "\<not> should_create_new_indexing connector' (Some last_attempt) model w"
    if "a_status last_attempt = NOT_STARTED"
    using that by (simp add: should_create_new_indexing_def split: option.splits)
  show ?thesis
    unfolding td_def [symmetric] using code exact zero never
    by (auto simp: td_def)
qed

theorem should_create_cadence_witness:
  "should_create_new_indexing
     \<lparr>c_id = 1, c_name = ''web'', c_disabled = False, c_refresh_freq = Some 60, c_credentials = [1]\<rparr>
     (Some \<lparr>a_id = 3, connector_id = Some 1, credential_id = Some 1, embedding_model_id = 10,
            a_status = SUCCESS, time_updated = 5000000, error_msg = None\<rparr>)
     \<lparr>m_id = 10, m_status = PRESENT\<rparr>
     \<lparr>connectors = [], credentials = [], embedding_models = [], index_attempts = [],
      cc_pairs = [], db_time = 65000000, calls = []\<rparr>
   \<and> \<not> should_create_new_indexing
     \<lparr>c_id = 1, c_name = ''web'', c_disabled = False, c_refresh_freq = Some 60, c_credentials = [1]\<rparr>
     (Some \<lparr>a_id = 3, connector_id = Some 1, credential_id = Some 1, embedding_model_id = 10,
            a_status = SUCCESS, time_updated = 5000001, error_msg = None\<rparr>)
     \<lparr>m_id = 10, m_status = PRESENT\<rparr>
     \<lparr>connectors = [], credentials = [], embedding_models = [], index_attempts = [],
      cc_pairs = [], db_time = 65000000, calls = []\<rparr>
   \<and> \<not> should_create_new_indexing
     \<lparr>c_id = 1, c_name = ''web'', c_disabled = False, c_refresh_freq = Some 0, c_credentials = [1]\<rparr>
     (Some \<lparr>a_id = 3, connector_id = Some 1, credential_id = Some 1, embedding_model_id = 10,
            a_status = NOT_STARTED, time_updated = 5000000, error_msg = None\<rparr>)
     \<lparr>m_id = 10, m_status = PRESENT\<rparr>
     \<lparr>connectors = [], credentials = [], embedding_models = [], index_attempts = [],
      cc_pairs = [], db_time = 65000000, calls = []\<rparr>"
proof -
  let ?C = "\<lparr>c_id = 1, c_name = ''web'', c_disabled = False, c_refresh_freq = Some 60,
             c_credentials = [1]\<rparr>"
  let ?Z = "\<lparr>c_id = 1, c_name = ''web'', c_disabled = False, c_refresh_freq = Some 0,
              c_credentials = [1]\<rparr>"
  let ?A = "\<lparr>a_id = 3, connector_id = Some 1, credential_id = Some 1, embedding_model_id = 10,
             a_status = SUCCESS, time_updated = 5000000, error_msg = None\<rparr>"
  let ?B = "\<lparr>a_id = 3, connector_id = Some 1, credential_id = Some 1, embedding_model_id = 10,
             a_status = SUCCESS, time_updated = 5000001, error_msg = None\<rparr>"
  let ?N = "\<lparr>a_id = 3, connector_id = Some 1, credential_id = Some 1, embedding_model_id = 10,
             a_status = NOT_STARTED, time_updated = 5000000, error_msg = None\<rparr>"
  let ?M = "\<lparr>m_id = 10, m_status = PRESENT\<rparr>"
  let ?W = "\<lparr>connectors = [], credentials = [], embedding_models = [], index_attempts = [],
             cc_pairs = [], db_time = 65000000, calls = []\<rparr>"
  have c: "\<not> c_disabled ?C \<and> c_refresh_freq ?C = Some 60 \<and> a_status ?A \<noteq> NOT_STARTED"
    "\<not> c_disabled ?C \<and> c_refresh_freq ?C = Some 60 \<and> a_status ?B \<noteq> NOT_STARTED"
    "a_status ?N = NOT_STARTED"
    by simp_all
  have ra: "\<bar>get_db_current_time ?W - time_updated ?A\<bar> < 2 ^ 34 * 1000000"
    "1000000 * 60 \<le> get_db_current_time ?W - time_updated ?A"
    by (simp_all add: get_db_current_time_def)
  have rb: "\<bar>get_db_current_time ?W - time_updated ?B\<bar> < 2 ^ 34 * 1000000"
    "\<not> 1000000 * 60 \<le> get_db_current_time ?W - time_updated ?B"
    by (simp_all add: get_db_current_time_def)
  have "should_create_new_indexing ?C (Some ?A) ?M ?W"
    using should_create_cadence [of ?C 60 ?A ?M ?W] c(1) ra by blast
  moreover have "\<not> should_create_new_indexing ?C (Some ?B) ?M ?W"
    using should_create_cadence [of ?C 60 ?B ?M ?W] c(2) rb by blast
  moreover have "\<not> should_create_new_indexing ?Z (Some ?N) ?M ?W"
    using should_create_cadence [of ?Z 0 ?N ?M ?W ?Z] c(3) by blast
  ultimately show ?thesis by blast
qed

text \<open>
  The claim as stated fails where the rounding of \<^verbatim>\<open>total_seconds()\<close> reaches a
  microsecond: with \<^verbatim>\<open>refresh_freq\<close> \<open>= 2\<^sup>3\<^sup>4 + 1\<close> and a last update one microsecond less
  than \<^verbatim>\<open>refresh_freq\<close> seconds ago, \<^verbatim>\<open>total_seconds()\<close> is \<open>2\<^sup>3\<^sup>4 + 1\<close> and the connector is
  scheduled, though the time since the last update is less than \<^verbatim>\<open>refresh_freq\<close>.
\<close>

theorem should_create_cadence_counterexample:
  "get_db_current_time
       \<lparr>connectors = [], credentials = [], embedding_models = [], index_attempts = [],
        cc_pairs = [], db_time = 17179869184999999, calls = []\<rparr>
     - time_updated
       \<lparr>a_id = 3, connector_id = Some 1, credential_id = Some 1, embedding_model_id = 10,
        a_status = SUCCESS, time_updated = 0, error_msg = None\<rparr>
     < 1000000 * 17179869185
   \<and> should_create_new_indexing
     \<lparr>c_id = 1, c_name = ''web'', c_disabled = False, c_refresh_freq = Some 17179869185,
      c_credentials = [1]\<rparr>
     (Some \<lparr>a_id = 3, connector_id = Some 1, credential_id = Some 1, embedding_model_id = 10,
            a_status = SUCCESS, time_updated = 0, error_msg = None\<rparr>)
     \<lparr>m_id = 10, m_status = PRESENT\<rparr>
     \<lparr>connectors = [], credentials = [], embedding_models = [], index_attempts = [],
      cc_pairs = [], db_time = 17179869184999999, calls = []\<rparr>"
proof -
  have "nearest_double (17179869184999999 / 1000000) = 17179869185"
    by (subst nearest_double_binade [of 34]) (simp_all add: round_half_even_def Let_def)
  then show ?thesis
    by (simp add: should_create_new_indexing_def get_db_current_time_def total_seconds_def)
qed

subsection \<open>Facts about the store gateway\<close>

lemma emit_fields [simp]:
  "connectors (emit c w) = connectors w"
  "credentials (emit c w) = credentials w"
  "embedding_models (emit c w) = embedding_models w"
  "index_attempts (emit c w) = index_attempts w"
  "cc_pairs (emit c w) = cc_pairs w"
  "db_time (emit c w) = db_time w"
  "calls (emit c w) = calls w @ [c]"
  by (simp_all add: emit_def)

lemma mark_attempt_failed_fields [simp]:
  "connectors (mark_attempt_failed a w r) = connectors w"
  "credentials (mark_attempt_failed a w r) = credentials w"
  "embedding_models (mark_attempt_failed a w r) = embedding_models w"
  "index_attempts (mark_attempt_failed a w r) = map (fail_row (a_id a) r (db_time w)) (index_attempts w)"
  "cc_pairs (mark_attempt_failed a w r) = cc_pairs w"
  "db_time (mark_attempt_failed a w r) = db_time w"
  "calls (mark_attempt_failed a w r) = calls w @ [MarkAttemptFailed (a_id a) r]"
  by (simp_all add: mark_attempt_failed_def)

lemma update_connector_credential_pair_fields [simp]:
  "connectors (update_connector_credential_pair w c k st) = connectors w"
  "credentials (update_connector_credential_pair w c k st) = credentials w"
  "embedding_models (update_connector_credential_pair w c k st) = embedding_models w"
  "index_attempts (update_connector_credential_pair w c k st) = index_attempts w"
  "cc_pairs (update_connector_credential_pair w c k st) = map (set_cc_status c k st) (cc_pairs w)"
  "db_time (update_connector_credential_pair w c k st) = db_time w"
  "calls (update_connector_credential_pair w c k st) = calls w @ [UpdateConnectorCredentialPair c k st]"
  by (simp_all add: update_connector_credential_pair_def)

lemma fail_row_keys [simp]:
  "a_id (fail_row i r t a) = a_id a"
  "connector_id (fail_row i r t a) = connector_id a"
  "credential_id (fail_row i r t a) = credential_id a"
  "embedding_model_id (fail_row i r t a) = embedding_model_id a"
  by (simp_all add: fail_row_def)

lemma fail_row_other [simp]: "a_id a \<noteq> i \<Longrightarrow> fail_row i r t a = a"
  by (simp add: fail_row_def)

lemma fail_row_terminal [simp]: "is_terminal (a_status (fail_row i r t a)) \<longleftrightarrow> a_id a = i \<or> is_terminal (a_status a)"
  by (auto simp: fail_row_def is_terminal_def)

lemma find_map_invariant:
  "(\<And>x. P (f x) = P x) \<Longrightarrow> find P (map f xs) = map_option f (find P xs)"
  by (induction xs) simp_all

lemma attempt_embedding_model_cong:
  "embedding_models w' = embedding_models w \<Longrightarrow>
   attempt_embedding_model w' a = attempt_embedding_model w a"
  by (simp add: attempt_embedding_model_def)

lemma get_index_attempt_mark_attempt_failed:
  "get_index_attempt (mark_attempt_failed a w r) i =
     map_option (fail_row (a_id a) r (db_time w)) (get_index_attempt w i)"
  by (simp add: get_index_attempt_def find_map_invariant)

subsection \<open>Marking a run as failed\<close>

text \<open>
  C7. For every attempt, \<^verbatim>\<open>_mark_run_failed\<close> always calls the gateway's
  \<^verbatim>\<open>mark_attempt_failed\<close> on the attempt, exactly once and before anything else it
  does on the store: the attempts table afterwards is the table with that marking
  applied, so the row of the attempt is terminal afterwards, and it is FAILED with the
  given reason when it was not terminal before (the gateway leaves a terminal row as it
  is). The connector-credential pair is updated, to FAILED, if and only if
  \<^verbatim>\<open>connector_id\<close> and \<^verbatim>\<open>credential_id\<close> are both present and the attempt's embedding
  model has status PRESENT. In every other case, in particular for an attempt of a
  FUTURE model, the table of pairs is left as it was.
\<close>

theorem mark_run_failed_effects:
  "index_attempts (snd (mark_run_failed w a reason)) =
     index_attempts (mark_attempt_failed a w reason)
   \<and> (\<forall>row. get_index_attempt w (a_id a) = Some row \<longrightarrow>
        (\<exists>row'. get_index_attempt (snd (mark_run_failed w a reason)) (a_id a) = Some row' \<and>
           is_terminal (a_status row') \<and>
           (\<not> is_terminal (a_status row) \<longrightarrow>
              a_status row' = FAILED \<and> error_msg row' = Some reason)))
   \<and> (\<exists>rest. calls (snd (mark_run_failed w a reason)) =
          calls w @ [Log WARNING ''Marking in-progress attempt as failed'' [a_id a],
                     MarkAttemptFailed (a_id a) reason] @ rest \<and>
        (\<forall>cid kid. connector_id a = Some cid \<and> credential_id a = Some kid \<and>
            map_option m_status (attempt_embedding_model w a) = Some PRESENT \<longrightarrow>
            rest = [UpdateConnectorCredentialPair cid kid FAILED] \<and>
            cc_pairs (snd (mark_run_failed w a reason)) =
              map (set_cc_status cid kid FAILED) (cc_pairs w)) \<and>
        (connector_id a = None \<or> credential_id a = None \<or>
            map_option m_status (attempt_embedding_model w a) \<noteq> Some PRESENT \<longrightarrow>
            rest = [] \<and> cc_pairs (snd (mark_run_failed w a reason)) = cc_pairs w))"
proof -
  have model: "attempt_embedding_model
      (mark_attempt_failed a (emit (Log WARNING ''Marking in-progress attempt as failed'' [a_id a]) w) reason) a
      = attempt_embedding_model w a"
    by (rule attempt_embedding_model_cong) simp
  have rows: "index_attempts (snd (mark_run_failed w a reason)) =
      index_attempts (mark_attempt_failed a w reason)"
    by (simp add: mark_run_failed_def Let_def model split: option.splits)
  have lookup: "get_index_attempt (snd (mark_run_failed w a reason)) (a_id a) =
      map_option (fail_row (a_id a) reason (db_time w)) (get_index_attempt w (a_id a))"
    using rows by (simp add: get_index_attempt_def find_map_invariant)
  have row_ok: "\<forall>row. get_index_attempt w (a_id a) = Some row \<longrightarrow>
        (\<exists>row'. get_index_attempt (snd (mark_run_failed w a reason)) (a_id a) = Some row' \<and>
           is_terminal (a_status row') \<and>
           (\<not> is_terminal (a_status row) \<longrightarrow>
              a_status row' = FAILED \<and> error_msg row' = Some reason))"
  proof (intro allI impI)
    fix row assume r: "get_index_attempt w (a_id a) = Some row"
    then have "a_id row = a_id a"
      by (auto simp: get_index_attempt_def find_Some_iff)
    then show "\<exists>row'. get_index_attempt (snd (mark_run_failed w a reason)) (a_id a) = Some row' \<and>
           is_terminal (a_status row') \<and>
           (\<not> is_terminal (a_status row) \<longrightarrow>
              a_status row' = FAILED \<and> error_msg row' = Some reason)"
      using r by (simp add: lookup) (simp add: fail_row_def)
  qed
  have trace: "\<exists>rest. calls (snd (mark_run_failed w a reason)) =
          calls w @ [Log WARNING ''Marking in-progress attempt as failed'' [a_id a],
                     MarkAttemptFailed (a_id a) reason] @ rest \<and>
        (\<forall>cid kid. connector_id a = Some cid \<and> credential_id a = Some kid \<and>
            map_option m_status (attempt_embedding_model w a) = Some PRESENT \<longrightarrow>
            rest = [UpdateConnectorCredentialPair cid kid FAILED] \<and>
            cc_pairs (snd (mark_run_failed w a reason)) =
              map (set_cc_status cid kid FAILED) (cc_pairs w)) \<and>
        (connector_id a = None \<or> credential_id a = None \<or>
            map_option m_status (attempt_embedding_model w a) \<noteq> Some PRESENT \<longrightarrow>
            rest = [] \<and> cc_pairs (snd (mark_run_failed w a reason)) = cc_pairs w)"
    by (auto simp: mark_run_failed_def Let_def model split: option.splits)
  show ?thesis using rows row_ok trace by blast
qed

theorem mark_run_failed_effects_witness:
  "get_index_attempt
      \<lparr>connectors = [], credentials = [1],
       embedding_models = [\<lparr>m_id = 10, m_status = PRESENT\<rparr>, \<lparr>m_id = 20, m_status = FUTURE\<rparr>],
       index_attempts =
         [\<lparr>a_id = 7, connector_id = Some 1, credential_id = Some 1, embedding_model_id = 10,
           a_status = IN_PROGRESS, time_updated = 0, error_msg = None\<rparr>,
          \<lparr>a_id = 8, connector_id = Some 1, credential_id = Some 1, embedding_model_id = 20,
           a_status = IN_PROGRESS, time_updated = 0, error_msg = None\<rparr>],
       cc_pairs = [\<lparr>cc_connector_id = 1, cc_credential_id = 1, last_attempt_status = Some IN_PROGRESS\<rparr>],
       db_time = 100, calls = []\<rparr> 7
     = Some \<lparr>a_id = 7, connector_id = Some 1, credential_id = Some 1, embedding_model_id = 10,
           a_status = IN_PROGRESS, time_updated = 0, error_msg = None\<rparr>
   \<and> snd (mark_run_failed
      \<lparr>connectors = [], credentials = [1],
       embedding_models = [\<lparr>m_id = 10, m_status = PRESENT\<rparr>, \<lparr>m_id = 20, m_status = FUTURE\<rparr>],
       index_attempts =
         [\<lparr>a_id = 7, connector_id = Some 1, credential_id = Some 1, embedding_model_id = 10,
           a_status = IN_PROGRESS, time_updated = 0, error_msg = None\<rparr>,
          \<lparr>a_id = 8, connector_id = Some 1, credential_id = Some 1, embedding_model_id = 20,
           a_status = IN_PROGRESS, time_updated = 0, error_msg = None\<rparr>],
       cc_pairs = [\<lparr>cc_connector_id = 1, cc_credential_id = 1, last_attempt_status = Some IN_PROGRESS\<rparr>],
       db_time = 100, calls = []\<rparr>
      \<lparr>a_id = 7, connector_id = Some 1, credential_id = Some 1, embedding_model_id = 10,
       a_status = IN_PROGRESS, time_updated = 0, error_msg = None\<rparr> ''frozen'')
     = \<lparr>connectors = [], credentials = [1],
       embedding_models = [\<lparr>m_id = 10, m_status = PRESENT\<rparr>, \<lparr>m_id = 20, m_status = FUTURE\<rparr>],
       index_attempts =
         [\<lparr>a_id = 7, connector_id = Some 1, credential_id = Some 1, embedding_model_id = 10,
           a_status = FAILED, time_updated = 100, error_msg = Some ''frozen''\<rparr>,
          \<lparr>a_id = 8, connector_id = Some 1, credential_id = Some 1, embedding_model_id = 20,
           a_status = IN_PROGRESS, time_updated = 0, error_msg = None\<rparr>],
       cc_pairs = [\<lparr>cc_connector_id = 1, cc_credential_id = 1, last_attempt_status = Some FAILED\<rparr>],
       db_time = 100,
       calls = [Log WARNING ''Marking in-progress attempt as failed'' [7],
                MarkAttemptFailed 7 ''frozen'', UpdateConnectorCredentialPair 1 1 FAILED]\<rparr>
   \<and> snd (mark_run_failed
      \<lparr>connectors = [], credentials = [1],
       embedding_models = [\<lparr>m_id = 10, m_status = PRESENT\<rparr>, \<lparr>m_id = 20, m_status = FUTURE\<rparr>],
       index_attempts =
         [\<lparr>a_id = 7, connector_id = Some 1, credential_id = Some 1, embedding_model_id = 10,
           a_status = IN_PROGRESS, time_updated = 0, error_msg = None\<rparr>,
          \<lparr>a_id = 8, connector_id = Some 1, credential_id = Some 1, embedding_model_id = 20,
           a_status = IN_PROGRESS, time_updated = 0, error_msg = None\<rparr>],
       cc_pairs = [\<lparr>cc_connector_id = 1, cc_credential_id = 1, last_attempt_status = Some IN_PROGRESS\<rparr>],
       db_time = 100, calls = []\<rparr>
      \<lparr>a_id = 8, connector_id = Some 1, credential_id = Some 1, embedding_model_id = 20,
       a_status = IN_PROGRESS, time_updated = 0, error_msg = None\<rparr> ''frozen'')
     = \<lparr>connectors = [], credentials = [1],
       embedding_models = [\<lparr>m_id = 10, m_status = PRESENT\<rparr>, \<lparr>m_id = 20, m_status = FUTURE\<rparr>],
       index_attempts =
         [\<lparr>a_id = 7, connector_id = Some 1, credential_id = Some 1, embedding_model_id = 10,
           a_status = IN_PROGRESS, time_updated = 0, error_msg = None\<rparr>,
          \<lparr>a_id = 8, connector_id = Some 1, credential_id = Some 1, embedding_model_id = 20,
           a_status = FAILED, time_updated = 100, error_msg = Some ''frozen''\<rparr>],
       cc_pairs = [\<lparr>cc_connector_id = 1, cc_credential_id = 1, last_attempt_status = Some IN_PROGRESS\<rparr>],
       db_time = 100,
       calls = [Log WARNING ''Marking in-progress attempt as failed'' [8],
                MarkAttemptFailed 8 ''frozen'']\<rparr>"
  using mark_run_failed_effects
    [of "\<lparr>connectors = [], credentials = [1],
       embedding_models = [\<lparr>m_id = 10, m_status = PRESENT\<rparr>, \<lparr>m_id = 20, m_status = FUTURE\<rparr>],
       index_attempts =
         [\<lparr>a_id = 7, connector_id = Some 1, credential_id = Some 1, embedding_model_id = 10,
           a_status = IN_PROGRESS, time_updated = 0, error_msg = None\<rparr>,
          \<lparr>a_id = 8, connector_id = Some 1, credential_id = Some 1, embedding_model_id = 20,
           a_status = IN_PROGRESS, time_updated = 0, error_msg = None\<rparr>],
       cc_pairs = [\<lparr>cc_connector_id = 1, cc_credential_id = 1, last_attempt_status = Some IN_PROGRESS\<rparr>],
       db_time = 100, calls = []\<rparr>"
      "\<lparr>a_id = 7, connector_id = Some 1, credential_id = Some 1, embedding_model_id = 10,
       a_status = IN_PROGRESS, time_updated = 0, error_msg = None\<rparr>" "''frozen''"]
  by (simp add: mark_run_failed_def mark_attempt_failed_def update_connector_credential_pair_def
        emit_def attempt_embedding_model_def get_index_attempt_def fail_row_def is_terminal_def
        set_cc_status_def Let_def)

subsection \<open>The swap check\<close>

lemma update_embedding_model_status_fields [simp]:
  "connectors (update_embedding_model_status m st w) = connectors w"
  "credentials (update_embedding_model_status m st w) = credentials w"
  "embedding_models (update_embedding_model_status m st w) =
     map (set_model_status (m_id m) st) (embedding_models w)"
  "index_attempts (update_embedding_model_status m st w) = index_attempts w"
  "cc_pairs (update_embedding_model_status m st w) = cc_pairs w"
  "db_time (update_embedding_model_status m st w) = db_time w"
  "calls (update_embedding_model_status m st w) = calls w @ [UpdateEmbeddingModelStatus (m_id m) st]"
  by (simp_all add: update_embedding_model_status_def)

lemma resync_cc_pair_fields [simp]:
  "connectors (resync_cc_pair p w) = connectors w"
  "credentials (resync_cc_pair p w) = credentials w"
  "embedding_models (resync_cc_pair p w) = embedding_models w"
  "index_attempts (resync_cc_pair p w) = index_attempts w"
  "db_time (resync_cc_pair p w) = db_time w"
  "calls (resync_cc_pair p w) = calls w @ [ResyncCCPair (cc_connector_id p) (cc_credential_id p)]"
  by (simp_all add: resync_cc_pair_def)

lemma fold_resync_cc_pair_fields [simp]:
  "connectors (fold resync_cc_pair ps w) = connectors w"
  "credentials (fold resync_cc_pair ps w) = credentials w"
  "embedding_models (fold resync_cc_pair ps w) = embedding_models w"
  "index_attempts (fold resync_cc_pair ps w) = index_attempts w"
  "db_time (fold resync_cc_pair ps w) = db_time w"
  "calls (fold resync_cc_pair ps w) =
     calls w @ map (\<lambda>p. ResyncCCPair (cc_connector_id p) (cc_credential_id p)) ps"
  by (induction ps arbitrary: w) simp_all

lemma count_unique_status_independent:
  "count_unique_cc_pairs_with_index_attempts mid
      (w\<lparr>index_attempts := map (\<lambda>a. a\<lparr>a_status := g a\<rparr>) (index_attempts w)\<rparr>)
   = count_unique_cc_pairs_with_index_attempts mid w"
  by (simp add: count_unique_cc_pairs_with_index_attempts_def filter_map o_def)

lemma check_index_swap_status_independent:
  "fst (check_index_swap (with_statuses g w)) = fst (check_index_swap w) \<and>
   embedding_models (snd (check_index_swap (with_statuses g w))) =
     embedding_models (snd (check_index_swap w)) \<and>
   calls (snd (check_index_swap (with_statuses g w))) = calls (snd (check_index_swap w))"
proof -
  have c: "\<And>mid. count_unique_cc_pairs_with_index_attempts mid (with_statuses g w)
      = count_unique_cc_pairs_with_index_attempts mid w"
    unfolding with_statuses_def by (rule count_unique_status_independent)
  have s: "get_secondary_db_embedding_model (with_statuses g w) = get_secondary_db_embedding_model w"
    by (simp add: get_secondary_db_embedding_model_def with_statuses_def)
  have p: "get_current_db_embedding_model (with_statuses g w) = get_current_db_embedding_model w"
    by (simp add: get_current_db_embedding_model_def with_statuses_def)
  have q: "get_connector_credential_pairs (with_statuses g w) = get_connector_credential_pairs w"
    by (simp add: get_connector_credential_pairs_def with_statuses_def)
  have f: "embedding_models (with_statuses g w) = embedding_models w"
    "calls (with_statuses g w) = calls w"
    by (simp_all add: with_statuses_def)
  show ?thesis
    unfolding check_index_swap_def Let_def c s p q
    by (simp add: f split: option.splits sum.splits)
qed

lemma check_index_swap_branches:
  "(get_secondary_db_embedding_model w = None \<longrightarrow> check_index_swap w = (Inr (), w))
   \<and> (\<forall>m. get_secondary_db_embedding_model w = Some m \<longrightarrow>
        (count_unique_cc_pairs_with_index_attempts (m_id m) w >
           int (length (get_connector_credential_pairs w)) - 1 \<longrightarrow>
           (\<exists>e. check_index_swap w = (Inl e, w)))
      \<and> (count_unique_cc_pairs_with_index_attempts (m_id m) w =
           int (length (get_connector_credential_pairs w)) - 1 \<longrightarrow>
           (\<forall>old. get_current_db_embedding_model w = Inr old \<longrightarrow>
              fst (check_index_swap w) = Inr () \<and>
              calls (snd (check_index_swap w)) =
                calls w @ [UpdateEmbeddingModelStatus (m_id old) PAST,
                           UpdateEmbeddingModelStatus (m_id m) PRESENT] @
                  map (\<lambda>p. ResyncCCPair (cc_connector_id p) (cc_credential_id p))
                    (get_connector_credential_pairs w) \<and>
              embedding_models (snd (check_index_swap w)) =
                map (set_model_status (m_id m) PRESENT)
                  (map (set_model_status (m_id old) PAST) (embedding_models w)) \<and>
              (\<forall>x \<in> set (embedding_models (snd (check_index_swap w))).
                 (m_id x = m_id m \<longrightarrow> m_status x = PRESENT) \<and>
                 (m_id x = m_id old \<and> m_id old \<noteq> m_id m \<longrightarrow> m_status x = PAST)))))"
  by (auto simp: check_index_swap_def Let_def set_model_status_def)

text \<open>
  C1. \<^verbatim>\<open>check_index_swap\<close>. With no secondary (FUTURE) model the function returns and
  the world is unchanged. With a secondary model \<open>m\<close>, let \<open>eligible\<close> be the number of
  cc-pairs minus one and \<open>attempted\<close> the number of distinct cc-pairs with an attempt
  against \<open>m\<close>. If \<open>attempted > eligible\<close> the function raises and the world is
  unchanged (no swap). If \<open>attempted = eligible\<close> it sets the current PRESENT model
  to PAST, then \<open>m\<close> to PRESENT, then calls \<^verbatim>\<open>resync_cc_pair\<close> on every cc-pair, in
  this order and with no other call. The outcome does not depend on the statuses of the
  attempts: the same store with any other statuses on its attempt rows gives the same
  result, the same calls and the same models.
\<close>

theorem check_index_swap_spec:
  "(get_secondary_db_embedding_model w = None \<longrightarrow> check_index_swap w = (Inr (), w))
   \<and> (\<forall>m. get_secondary_db_embedding_model w = Some m \<longrightarrow>
        (count_unique_cc_pairs_with_index_attempts (m_id m) w >
           int (length (get_connector_credential_pairs w)) - 1 \<longrightarrow>
           (\<exists>e. check_index_swap w = (Inl e, w)))
      \<and> (count_unique_cc_pairs_with_index_attempts (m_id m) w =
           int (length (get_connector_credential_pairs w)) - 1 \<longrightarrow>
           (\<forall>old. get_current_db_embedding_model w = Inr old \<longrightarrow>
              fst (check_index_swap w) = Inr () \<and>
              calls (snd (check_index_swap w)) =
                calls w @ [UpdateEmbeddingModelStatus (m_id old) PAST,
                           UpdateEmbeddingModelStatus (m_id m) PRESENT] @
                  map (\<lambda>p. ResyncCCPair (cc_connector_id p) (cc_credential_id p))
                    (get_connector_credential_pairs w) \<and>
              embedding_models (snd (check_index_swap w)) =
                map (set_model_status (m_id m) PRESENT)
                  (map (set_model_status (m_id old) PAST) (embedding_models w)) \<and>
              (\<forall>x \<in> set (embedding_models (snd (check_index_swap w))).
                 (m_id x = m_id m \<longrightarrow> m_status x = PRESENT) \<and>
                 (m_id x = m_id old \<and> m_id old \<noteq> m_id m \<longrightarrow> m_status x = PAST)))))
   \<and> fst (check_index_swap (with_statuses g w)) = fst (check_index_swap w)
   \<and> embedding_models (snd (check_index_swap (with_statuses g w))) =
       embedding_models (snd (check_index_swap w))
   \<and> calls (snd (check_index_swap (with_statuses g w))) = calls (snd (check_index_swap w))"
  using check_index_swap_branches [of w] check_index_swap_status_independent [of g w]
  by blast

lemmas migration_store_eval =
  migration_store_def get_secondary_db_embedding_model_def
  count_unique_cc_pairs_with_index_attempts_def get_connector_credential_pairs_def
  get_current_db_embedding_model_def set_model_status_def

theorem check_index_swap_spec_witness:
  "get_secondary_db_embedding_model migration_store = Some \<lparr>m_id = 20, m_status = FUTURE\<rparr>
   \<and> count_unique_cc_pairs_with_index_attempts 20 migration_store = 1
   \<and> int (length (get_connector_credential_pairs migration_store)) - 1 = 1
   \<and> get_current_db_embedding_model migration_store = Inr \<lparr>m_id = 10, m_status = PRESENT\<rparr>
   \<and> fst (check_index_swap migration_store) = Inr ()
   \<and> calls (snd (check_index_swap migration_store)) =
       [UpdateEmbeddingModelStatus 10 PAST, UpdateEmbeddingModelStatus 20 PRESENT,
        ResyncCCPair 0 0, ResyncCCPair 1 1]
   \<and> embedding_models (snd (check_index_swap migration_store)) =
       [\<lparr>m_id = 10, m_status = PAST\<rparr>, \<lparr>m_id = 20, m_status = PRESENT\<rparr>]
   \<and> get_secondary_db_embedding_model (migration_store\<lparr>cc_pairs := []\<rparr>) =
       Some \<lparr>m_id = 20, m_status = FUTURE\<rparr>
   \<and> count_unique_cc_pairs_with_index_attempts 20 (migration_store\<lparr>cc_pairs := []\<rparr>) >
       int (length (get_connector_credential_pairs (migration_store\<lparr>cc_pairs := []\<rparr>))) - 1
   \<and> (\<exists>e. check_index_swap (migration_store\<lparr>cc_pairs := []\<rparr>) =
         (Inl e, migration_store\<lparr>cc_pairs := []\<rparr>))
   \<and> get_secondary_db_embedding_model (migration_store\<lparr>embedding_models := []\<rparr>) = None
   \<and> check_index_swap (migration_store\<lparr>embedding_models := []\<rparr>) =
       (Inr (), migration_store\<lparr>embedding_models := []\<rparr>)"
proof -
  have s: "get_secondary_db_embedding_model migration_store = Some \<lparr>m_id = 20, m_status = FUTURE\<rparr>"
    by (simp add: migration_store_eval)
  have n: "count_unique_cc_pairs_with_index_attempts 20 migration_store = 1"
    by (simp add: migration_store_eval)
  have e: "int (length (get_connector_credential_pairs migration_store)) - 1 = 1"
    by (simp add: migration_store_eval)
  have c: "get_current_db_embedding_model migration_store = Inr \<lparr>m_id = 10, m_status = PRESENT\<rparr>"
    by (simp add: migration_store_eval)
  have swap: "fst (check_index_swap migration_store) = Inr () \<and>
      calls (snd (check_index_swap migration_store)) =
        calls migration_store @ [UpdateEmbeddingModelStatus 10 PAST,
          UpdateEmbeddingModelStatus 20 PRESENT] @
          map (\<lambda>p. ResyncCCPair (cc_connector_id p) (cc_credential_id p))
            (get_connector_credential_pairs migration_store) \<and>
      embedding_models (snd (check_index_swap migration_store)) =
        map (set_model_status 20 PRESENT)
          (map (set_model_status 10 PAST) (embedding_models migration_store))"
    using check_index_swap_spec [of migration_store "\<lambda>a. SUCCESS"] s n e c by simp
  have s': "get_secondary_db_embedding_model (migration_store\<lparr>cc_pairs := []\<rparr>) =
      Some \<lparr>m_id = 20, m_status = FUTURE\<rparr>"
    by (simp add: migration_store_eval)
  have n': "count_unique_cc_pairs_with_index_attempts 20 (migration_store\<lparr>cc_pairs := []\<rparr>) >
      int (length (get_connector_credential_pairs (migration_store\<lparr>cc_pairs := []\<rparr>))) - 1"
    by (simp add: migration_store_eval)
  have raise: "\<exists>e. check_index_swap (migration_store\<lparr>cc_pairs := []\<rparr>) =
      (Inl e, migration_store\<lparr>cc_pairs := []\<rparr>)"
    using check_index_swap_spec [of "migration_store\<lparr>cc_pairs := []\<rparr>" "\<lambda>a. SUCCESS"] s' n'
    by simp
  have s'': "get_secondary_db_embedding_model (migration_store\<lparr>embedding_models := []\<rparr>) = None"
    by (simp add: migration_store_eval)
  have none: "check_index_swap (migration_store\<lparr>embedding_models := []\<rparr>) =
      (Inr (), migration_store\<lparr>embedding_models := []\<rparr>)"
    using check_index_swap_spec [of "migration_store\<lparr>embedding_models := []\<rparr>" "\<lambda>a. SUCCESS"] s''
    by simp
  have swap': "fst (check_index_swap migration_store) = Inr ()
     \<and> calls (snd (check_index_swap migration_store)) =
       [UpdateEmbeddingModelStatus 10 PAST, UpdateEmbeddingModelStatus 20 PRESENT,
        ResyncCCPair 0 0, ResyncCCPair 1 1]
     \<and> embedding_models (snd (check_index_swap migration_store)) =
       [\<lparr>m_id = 10, m_status = PAST\<rparr>, \<lparr>m_id = 20, m_status = PRESENT\<rparr>]"
    using swap by (simp add: migration_store_eval)
  show ?thesis using s n e c swap' s' n' raise s'' none by blast
qed

subsection \<open>The dispatcher\<close>

lemma new_calls_append: "calls w' = calls w @ evs \<Longrightarrow> new_calls w w' = evs"
  by (simp add: new_calls_def)

lemma new_calls_writes [simp]:
  "new_calls w w = []"
  "new_calls w (emit e w) = [e]"
  "new_calls w (mark_attempt_failed b w r) = [MarkAttemptFailed (a_id b) r]"
  "new_calls w (update_connector_credential_pair w c k st) = [UpdateConnectorCredentialPair c k st]"
  by (simp_all add: new_calls_def)

lemma calls_about_simps [simp]:
  "calls_about i [] = []"
  "calls_about i (e # evs) = (if call_attempt e = Some i then e # calls_about i evs else calls_about i evs)"
  "calls_about i (evs @ evs') = calls_about i evs @ calls_about i evs'"
  by (simp_all add: calls_about_def)

lemma attempt_connector_cong:
  "connectors w' = connectors w \<Longrightarrow> attempt_connector w' a = attempt_connector w a"
  by (simp add: attempt_connector_def split: option.splits)

lemma attempt_credential_cong:
  "credentials w' = credentials w \<Longrightarrow> attempt_credential w' a = attempt_credential w a"
  by (simp add: attempt_credential_def split: option.splits)

lemma get_index_attempt_emit [simp]: "get_index_attempt (emit c w) i = get_index_attempt w i"
  by (simp add: get_index_attempt_def)

lemma get_index_attempt_id: "get_index_attempt w i = Some row \<Longrightarrow> a_id row = i"
  by (auto simp: get_index_attempt_def find_Some_iff)

lemma get_index_attempt_mark_other:
  "a_id a \<noteq> i \<Longrightarrow> get_index_attempt (mark_attempt_failed a w r) i = get_index_attempt w i"
  by (cases "get_index_attempt w i")
     (auto simp: get_index_attempt_mark_attempt_failed dest: get_index_attempt_id)

lemma get_index_attempt_mark_self:
  "get_index_attempt w (a_id a) = Some row \<Longrightarrow> \<not> is_terminal (a_status row) \<Longrightarrow>
   get_index_attempt (mark_attempt_failed a w r) (a_id a) =
     Some (row\<lparr>a_status := FAILED, error_msg := Some r, time_updated := db_time w\<rparr>)"
  by (auto simp: get_index_attempt_mark_attempt_failed fail_row_def dest: get_index_attempt_id)

text \<open>The three branches of the loop body.\<close>

lemma kickoff_attempt_no_connector:
  "attempt_connector w a = None \<Longrightarrow>
   kickoff_attempt m c s (a, em) (copy, w) =
     (copy, mark_attempt_failed a
        (emit (Log WARNING ''Skipping index attempt as Connector has been deleted'' [a_id a]) w)
        ''Connector is null'')"
  by (simp add: kickoff_attempt_def)

lemma kickoff_attempt_no_credential:
  "attempt_connector w a = Some conn \<Longrightarrow> attempt_credential w a = None \<Longrightarrow>
   kickoff_attempt m c s (a, em) (copy, w) =
     (copy, mark_attempt_failed a
        (emit (Log WARNING ''Skipping index attempt as Credential has been deleted'' [a_id a]) w)
        ''Credential is null'')"
  by (simp add: kickoff_attempt_def)

lemma kickoff_attempt_submit:
  "attempt_connector w a = Some conn \<Longrightarrow> attempt_credential w a = Some cred \<Longrightarrow>
   kickoff_attempt m c s (a, em) (copy, w) =
     (case submitted m c s a em of
        None \<Rightarrow> (copy, emit (Submit (chosen_client em) (a_id a) (get_num_threads m)) w)
      | Some job \<Rightarrow>
          (AList.update (a_id a) job copy,
           emit (Log INFO ''Kicked off indexing attempt'' [a_id a])
             (emit (Submit (chosen_client em) (a_id a) (get_num_threads m)) w)))"
  by (cases em)
     (auto simp: kickoff_attempt_def use_secondary_def chosen_client_def submitted_def Let_def
           split: option.splits)


lemma kickoff_attempt_cases:
  obtains
    (no_connector) "attempt_connector w a = None"
  | (no_credential) conn where "attempt_connector w a = Some conn" "attempt_credential w a = None"
  | (failed_submit) conn cred where "attempt_connector w a = Some conn"
      "attempt_credential w a = Some cred" "submitted m c s a em = None"
  | (tracked) conn cred job where "attempt_connector w a = Some conn"
      "attempt_credential w a = Some cred" "submitted m c s a em = Some job"
  by (cases "attempt_connector w a"; cases "attempt_credential w a"; cases "submitted m c s a em") auto

lemma kickoff_attempt_frame [simp]:
  "connectors (snd (kickoff_attempt m c s x st)) = connectors (snd st)"
  "credentials (snd (kickoff_attempt m c s x st)) = credentials (snd st)"
  "embedding_models (snd (kickoff_attempt m c s x st)) = embedding_models (snd st)"
  "cc_pairs (snd (kickoff_attempt m c s x st)) = cc_pairs (snd st)"
  "db_time (snd (kickoff_attempt m c s x st)) = db_time (snd st)"
proof -
  obtain a em copy w where x: "x = (a, em)" and st: "st = (copy, w)"
    by (cases x; cases st) auto
  have "connectors (snd (kickoff_attempt m c s x st)) = connectors (snd st) \<and>
    credentials (snd (kickoff_attempt m c s x st)) = credentials (snd st) \<and>
    embedding_models (snd (kickoff_attempt m c s x st)) = embedding_models (snd st) \<and>
    cc_pairs (snd (kickoff_attempt m c s x st)) = cc_pairs (snd st) \<and>
    db_time (snd (kickoff_attempt m c s x st)) = db_time (snd st)"
    unfolding x st
    by (cases rule: kickoff_attempt_cases [where w=w and a=a and m=m and c=c and s=s and em=em])
       (simp_all add: kickoff_attempt_no_connector kickoff_attempt_no_credential
          kickoff_attempt_submit)
  then show "connectors (snd (kickoff_attempt m c s x st)) = connectors (snd st)"
    "credentials (snd (kickoff_attempt m c s x st)) = credentials (snd st)"
    "embedding_models (snd (kickoff_attempt m c s x st)) = embedding_models (snd st)"
    "cc_pairs (snd (kickoff_attempt m c s x st)) = cc_pairs (snd st)"
    "db_time (snd (kickoff_attempt m c s x st)) = db_time (snd st)"
    by simp_all
qed

lemma kickoff_attempt_row_other:
  assumes "a_id (fst x) \<noteq> i"
  shows "get_index_attempt (snd (kickoff_attempt m c s x st)) i = get_index_attempt (snd st) i"
proof -
  obtain a em copy w where x: "x = (a, em)" and st: "st = (copy, w)"
    by (cases x; cases st) auto
  show ?thesis
    using assms unfolding x st
    by (cases rule: kickoff_attempt_cases [where w=w and a=a and m=m and c=c and s=s and em=em])
       (simp_all add: kickoff_attempt_no_connector kickoff_attempt_no_credential
          kickoff_attempt_submit get_index_attempt_mark_other)
qed

lemma kickoff_attempt_job_other:
  assumes "a_id (fst x) \<noteq> i"
  shows "map_of (fst (kickoff_attempt m c s x st)) i = map_of (fst st) i"
proof -
  obtain a em copy w where x: "x = (a, em)" and st: "st = (copy, w)"
    by (cases x; cases st) auto
  show ?thesis
    using assms unfolding x st
    by (cases rule: kickoff_attempt_cases [where w=w and a=a and m=m and c=c and s=s and em=em])
       (simp_all add: kickoff_attempt_no_connector kickoff_attempt_no_credential
          kickoff_attempt_submit update_conv')
qed


text \<open>What one step of the loop adds to the trace.\<close>

lemma kickoff_attempt_calls:
  "\<exists>evs. calls (snd (kickoff_attempt m c s x st)) = calls (snd st) @ evs \<and>
     (\<forall>i. i \<noteq> a_id (fst x) \<longrightarrow> calls_about i evs = [])"
proof -
  obtain a em copy w where x: "x = (a, em)" and st: "st = (copy, w)"
    by (cases x; cases st) auto
  show ?thesis
    unfolding x st
    by (cases rule: kickoff_attempt_cases [where w=w and a=a and m=m and c=c and s=s and em=em])
       (simp_all add: kickoff_attempt_no_connector kickoff_attempt_no_credential
          kickoff_attempt_submit)
qed

lemma fold_kickoff_frame [simp]:
  "connectors (snd (fold (kickoff_attempt m c s) xs st)) = connectors (snd st)"
  "credentials (snd (fold (kickoff_attempt m c s) xs st)) = credentials (snd st)"
  "embedding_models (snd (fold (kickoff_attempt m c s) xs st)) = embedding_models (snd st)"
  "cc_pairs (snd (fold (kickoff_attempt m c s) xs st)) = cc_pairs (snd st)"
  "db_time (snd (fold (kickoff_attempt m c s) xs st)) = db_time (snd st)"
  by (induction xs arbitrary: st) simp_all

lemma fold_kickoff_other:
  assumes "i \<notin> set (map (\<lambda>x. a_id (fst x)) xs)"
  shows "get_index_attempt (snd (fold (kickoff_attempt m c s) xs st)) i = get_index_attempt (snd st) i"
    and "map_of (fst (fold (kickoff_attempt m c s) xs st)) i = map_of (fst st) i"
    and "\<exists>evs. calls (snd (fold (kickoff_attempt m c s) xs st)) = calls (snd st) @ evs \<and>
           calls_about i evs = []"
  using assms
proof (induction xs arbitrary: st)
  case Nil
  { case 1 show ?case by simp }
  { case 2 show ?case by simp }
  { case 3 show ?case by simp }
next
  case (Cons x xs)
  { case 1
    then show ?case
      using Cons.IH(1) [of "kickoff_attempt m c s x st"]
      by (simp add: kickoff_attempt_row_other) }
  { case 2
    then show ?case
      using Cons.IH(2) [of "kickoff_attempt m c s x st"]
      by (simp add: kickoff_attempt_job_other) }
  { case 3
    then have i: "i \<noteq> a_id (fst x)" and rest: "i \<notin> set (map (\<lambda>x. a_id (fst x)) xs)"
      by auto
    obtain evs where evs: "calls (snd (kickoff_attempt m c s x st)) = calls (snd st) @ evs"
      "calls_about i evs = []"
      using kickoff_attempt_calls [of m c s x st] i by blast
    obtain evs' where evs': "calls (snd (fold (kickoff_attempt m c s) xs (kickoff_attempt m c s x st))) =
        calls (snd (kickoff_attempt m c s x st)) @ evs'" "calls_about i evs' = []"
      using Cons.IH(3) [OF rest, of "kickoff_attempt m c s x st"] by blast
    show ?case
      using evs evs' by simp }
qed


lemma kickoff_outcome_cong:
  "connectors w' = connectors w \<Longrightarrow> credentials w' = credentials w \<Longrightarrow> db_time w' = db_time w \<Longrightarrow>
   kickoff_outcome m c s w' a em prior = kickoff_outcome m c s w a em prior"
  by (simp add: kickoff_outcome_def attempt_connector_cong [of w' w] attempt_credential_cong [of w' w])

lemma kickoff_attempt_own:
  assumes "get_index_attempt w (a_id a) = Some a" "\<not> is_terminal (a_status a)"
  shows "\<exists>evs. calls (snd (kickoff_attempt m c s (a, em) (copy, w))) = calls w @ evs \<and>
     (calls_about (a_id a) evs,
      get_index_attempt (snd (kickoff_attempt m c s (a, em) (copy, w))) (a_id a),
      map_of (fst (kickoff_attempt m c s (a, em) (copy, w))) (a_id a))
     = (fst (kickoff_outcome m c s w a em (map_of copy (a_id a))),
        Some (fst (snd (kickoff_outcome m c s w a em (map_of copy (a_id a))))),
        snd (snd (kickoff_outcome m c s w a em (map_of copy (a_id a)))))"
  using assms
  by (cases rule: kickoff_attempt_cases [where w=w and a=a and m=m and c=c and s=s and em=em])
     (simp_all add: kickoff_attempt_no_connector kickoff_attempt_no_credential
        kickoff_attempt_submit kickoff_outcome_def get_index_attempt_mark_self update_conv')

lemma fold_kickoff_own:
  assumes d: "distinct (map (\<lambda>x. a_id (fst x)) xs)"
    and x: "(a, em) \<in> set xs"
    and row: "get_index_attempt (snd st) (a_id a) = Some a" "\<not> is_terminal (a_status a)"
  shows "\<exists>evs. calls (snd (fold (kickoff_attempt m c s) xs st)) = calls (snd st) @ evs \<and>
     (calls_about (a_id a) evs,
      get_index_attempt (snd (fold (kickoff_attempt m c s) xs st)) (a_id a),
      map_of (fst (fold (kickoff_attempt m c s) xs st)) (a_id a))
     = (fst (kickoff_outcome m c s (snd st) a em (map_of (fst st) (a_id a))),
        Some (fst (snd (kickoff_outcome m c s (snd st) a em (map_of (fst st) (a_id a))))),
        snd (snd (kickoff_outcome m c s (snd st) a em (map_of (fst st) (a_id a)))))"
proof -
  obtain ys zs where xs: "xs = ys @ (a, em) # zs"
    using x by (meson split_list)
  have ys: "a_id a \<notin> set (map (\<lambda>x. a_id (fst x)) ys)"
    and zs: "a_id a \<notin> set (map (\<lambda>x. a_id (fst x)) zs)"
    using d unfolding xs by auto
  define st1 where "st1 = fold (kickoff_attempt m c s) ys st"
  define st2 where "st2 = kickoff_attempt m c s (a, em) st1"
  have final: "fold (kickoff_attempt m c s) xs st = fold (kickoff_attempt m c s) zs st2"
    by (simp add: xs st1_def st2_def)
  obtain e1 where e1: "calls (snd st1) = calls (snd st) @ e1" "calls_about (a_id a) e1 = []"
    using fold_kickoff_other(3) [OF ys, of m c s st] unfolding st1_def by blast
  have r1: "get_index_attempt (snd st1) (a_id a) = Some a"
    using fold_kickoff_other(1) [OF ys, of m c s st] row unfolding st1_def by simp
  have j1: "map_of (fst st1) (a_id a) = map_of (fst st) (a_id a)"
    using fold_kickoff_other(2) [OF ys, of m c s st] unfolding st1_def by simp
  have o1: "kickoff_outcome m c s (snd st1) a em (map_of (fst st1) (a_id a)) =
      kickoff_outcome m c s (snd st) a em (map_of (fst st) (a_id a))"
    unfolding j1 by (rule kickoff_outcome_cong) (simp_all add: st1_def)
  obtain e2 where e2: "calls (snd st2) = calls (snd st1) @ e2"
    "(calls_about (a_id a) e2, get_index_attempt (snd st2) (a_id a), map_of (fst st2) (a_id a))
     = (fst (kickoff_outcome m c s (snd st) a em (map_of (fst st) (a_id a))),
        Some (fst (snd (kickoff_outcome m c s (snd st) a em (map_of (fst st) (a_id a))))),
        snd (snd (kickoff_outcome m c s (snd st) a em (map_of (fst st) (a_id a)))))"
    using kickoff_attempt_own [OF r1 row(2), of m c s em "fst st1"]
    unfolding st2_def o1 [symmetric] by auto
  obtain e3 where e3: "calls (snd (fold (kickoff_attempt m c s) zs st2)) = calls (snd st2) @ e3"
    "calls_about (a_id a) e3 = []"
    using fold_kickoff_other(3) [OF zs, of m c s st2] by blast
  have r3: "get_index_attempt (snd (fold (kickoff_attempt m c s) zs st2)) (a_id a) =
      get_index_attempt (snd st2) (a_id a)"
    using fold_kickoff_other(1) [OF zs, of m c s st2] by simp
  have j3: "map_of (fst (fold (kickoff_attempt m c s) zs st2)) (a_id a) = map_of (fst st2) (a_id a)"
    using fold_kickoff_other(2) [OF zs, of m c s st2] by simp
  have "calls (snd (fold (kickoff_attempt m c s) xs st)) = calls (snd st) @ (e1 @ e2 @ e3)"
    using e1(1) e2(1) e3(1) by (simp add: final)
  moreover have "calls_about (a_id a) (e1 @ e2 @ e3) = calls_about (a_id a) e2"
    using e1(2) e3(2) by simp
  ultimately show ?thesis
    using e2(2) r3 j3 unfolding final by (intro exI [of _ "e1 @ e2 @ e3"]) simp
qed


lemma find_distinct_key:
  "distinct (map f xs) \<Longrightarrow> x \<in> set xs \<Longrightarrow> find (\<lambda>y. f y = f x) xs = Some x"
  by (induction xs) (auto simp: image_iff)

lemma get_index_attempt_member:
  "distinct (map a_id (index_attempts w)) \<Longrightarrow> a \<in> set (index_attempts w) \<Longrightarrow>
   get_index_attempt w (a_id a) = Some a"
  by (simp add: get_index_attempt_def find_distinct_key)

lemma kickoff_indexing_jobs_outcome:
  assumes d: "distinct (map a_id (index_attempts w))"
    and a: "a \<in> set (index_attempts w)" "a_status a = NOT_STARTED"
      "a_id a \<notin> set (map fst existing_jobs)"
  shows "\<exists>evs. calls (snd (kickoff_indexing_jobs m existing_jobs c s w)) = calls w @ evs \<and>
     (calls_about (a_id a) evs,
      get_index_attempt (snd (kickoff_indexing_jobs m existing_jobs c s w)) (a_id a),
      map_of (fst (kickoff_indexing_jobs m existing_jobs c s w)) (a_id a))
     = (fst (kickoff_outcome m c s w a (attempt_embedding_model w a) None),
        Some (fst (snd (kickoff_outcome m c s w a (attempt_embedding_model w a) None))),
        snd (snd (kickoff_outcome m c s w a (attempt_embedding_model w a) None)))"
proof -
  define xs where "xs = map (\<lambda>attempt. (attempt, attempt_embedding_model w attempt))
      (filter (\<lambda>attempt. a_id attempt \<notin> set (map fst existing_jobs))
         (get_not_started_index_attempts w))"
  define w0 where "w0 = emit (Log INFO ''Found new indexing tasks'' [int (length xs)]) w"
  have mem: "(a, attempt_embedding_model w a) \<in> set xs"
    using a by (auto simp: xs_def get_not_started_index_attempts_def)
  then have ne: "xs \<noteq> []" by auto
  have dx: "distinct (map (\<lambda>x. a_id (fst x)) xs)"
    using d by (simp add: xs_def get_not_started_index_attempts_def o_def distinct_map_filter)
  have K: "kickoff_indexing_jobs m existing_jobs c s w =
      fold (kickoff_attempt m c s) xs (existing_jobs, w0)"
    using ne unfolding kickoff_indexing_jobs_def Let_def xs_def [symmetric] w0_def [symmetric]
    by simp
  have row: "get_index_attempt (snd (existing_jobs, w0)) (a_id a) = Some a"
    using get_index_attempt_member [OF d a(1)] by (simp add: w0_def)
  have nt: "\<not> is_terminal (a_status a)"
    using a(2) by (simp add: is_terminal_def)
  have prior: "map_of (fst (existing_jobs, w0)) (a_id a) = None"
    using a(3) by (simp add: map_of_eq_None_iff)
  have o: "kickoff_outcome m c s (snd (existing_jobs, w0)) a (attempt_embedding_model w a) None =
      kickoff_outcome m c s w a (attempt_embedding_model w a) None"
    by (rule kickoff_outcome_cong) (simp_all add: w0_def)
  obtain evs where evs: "calls (snd (fold (kickoff_attempt m c s) xs (existing_jobs, w0))) =
      calls (snd (existing_jobs, w0)) @ evs"
    "(calls_about (a_id a) evs,
      get_index_attempt (snd (fold (kickoff_attempt m c s) xs (existing_jobs, w0))) (a_id a),
      map_of (fst (fold (kickoff_attempt m c s) xs (existing_jobs, w0))) (a_id a))
     = (fst (kickoff_outcome m c s w a (attempt_embedding_model w a) None),
        Some (fst (snd (kickoff_outcome m c s w a (attempt_embedding_model w a) None))),
        snd (snd (kickoff_outcome m c s w a (attempt_embedding_model w a) None)))"
    using fold_kickoff_own [OF dx mem row nt, of m c s] unfolding prior o by auto
  have "calls (snd (kickoff_indexing_jobs m existing_jobs c s w)) =
      calls w @ (Log INFO ''Found new indexing tasks'' [int (length xs)] # evs)"
    using evs(1) by (simp add: K w0_def)
  moreover have "calls_about (a_id a) (Log INFO ''Found new indexing tasks'' [int (length xs)] # evs)
      = calls_about (a_id a) evs"
    by simp
  ultimately show ?thesis
    using evs(2) unfolding K
    by (intro exI [of _ "Log INFO ''Found new indexing tasks'' [int (length xs)] # evs"]) simp
qed


text \<open>
  C6. For every NOT_STARTED attempt that is not tracked: when its connector row is
  missing, the only call about it is \<^verbatim>\<open>mark_attempt_failed\<close> with reason
  "Connector is null" (so no job is submitted), its row is FAILED with that reason and it
  is not tracked afterwards; when the connector is there and its credential row is
  missing, the same with reason "Credential is null"; otherwise the only call about it
  is one \<^verbatim>\<open>submit\<close>, on the secondary client if and only if the status of its embedding
  model is FUTURE, its row is left as it was (NOT_STARTED), and its entry in the
  returned dictionary is what \<^verbatim>\<open>submit\<close> returned: none for a falsy handle.
\<close>

theorem kickoff_indexing_jobs_dispatch:
  assumes "distinct (map a_id (index_attempts w))"
    and "a \<in> set (index_attempts w)" and "a_status a = NOT_STARTED"
    and "a_id a \<notin> set (map fst existing_jobs)"
  shows "(attempt_connector w a = None \<longrightarrow>
      calls_about (a_id a) (new_calls w (snd (kickoff_indexing_jobs m existing_jobs c s w))) =
        [MarkAttemptFailed (a_id a) ''Connector is null''] \<and>
      get_index_attempt (snd (kickoff_indexing_jobs m existing_jobs c s w)) (a_id a) =
        Some (a\<lparr>a_status := FAILED, error_msg := Some ''Connector is null'',
                time_updated := db_time w\<rparr>) \<and>
      map_of (fst (kickoff_indexing_jobs m existing_jobs c s w)) (a_id a) = None)
    \<and> (attempt_connector w a \<noteq> None \<and> attempt_credential w a = None \<longrightarrow>
      calls_about (a_id a) (new_calls w (snd (kickoff_indexing_jobs m existing_jobs c s w))) =
        [MarkAttemptFailed (a_id a) ''Credential is null''] \<and>
      get_index_attempt (snd (kickoff_indexing_jobs m existing_jobs c s w)) (a_id a) =
        Some (a\<lparr>a_status := FAILED, error_msg := Some ''Credential is null'',
                time_updated := db_time w\<rparr>) \<and>
      map_of (fst (kickoff_indexing_jobs m existing_jobs c s w)) (a_id a) = None)
    \<and> (attempt_connector w a \<noteq> None \<and> attempt_credential w a \<noteq> None \<longrightarrow>
      calls_about (a_id a) (new_calls w (snd (kickoff_indexing_jobs m existing_jobs c s w))) =
        [Submit (if map_option m_status (attempt_embedding_model w a) = Some FUTURE
                 then SecondaryClient else PrimaryClient) (a_id a) (get_num_threads m)] \<and>
      get_index_attempt (snd (kickoff_indexing_jobs m existing_jobs c s w)) (a_id a) = Some a \<and>
      map_of (fst (kickoff_indexing_jobs m existing_jobs c s w)) (a_id a) =
        submit (if map_option m_status (attempt_embedding_model w a) = Some FUTURE
                then s else c) (a_id a) (get_num_threads m))"
proof -
  obtain evs where evs: "calls (snd (kickoff_indexing_jobs m existing_jobs c s w)) = calls w @ evs"
    "(calls_about (a_id a) evs,
      get_index_attempt (snd (kickoff_indexing_jobs m existing_jobs c s w)) (a_id a),
      map_of (fst (kickoff_indexing_jobs m existing_jobs c s w)) (a_id a))
     = (fst (kickoff_outcome m c s w a (attempt_embedding_model w a) None),
        Some (fst (snd (kickoff_outcome m c s w a (attempt_embedding_model w a) None))),
        snd (snd (kickoff_outcome m c s w a (attempt_embedding_model w a) None)))"
    using kickoff_indexing_jobs_outcome [OF assms, of m c s] by blast
  have n: "new_calls w (snd (kickoff_indexing_jobs m existing_jobs c s w)) = evs"
    using evs(1) by (rule new_calls_append)
  show ?thesis
    using evs(2) unfolding n
    by (auto simp: kickoff_outcome_def chosen_client_def submitted_def use_secondary_def
          split: option.splits)
qed

lemmas dispatch_store_eval =
  dispatch_store_def waiting_def attempt_connector_def attempt_credential_def
  attempt_embedding_model_def machine4_def handing_client_def falsy_client_def
  get_num_threads_def

theorem kickoff_indexing_jobs_dispatch_witness:
  "calls_about 1 (new_calls dispatch_store
      (snd (kickoff_indexing_jobs machine4 [] handing_client falsy_client dispatch_store))) =
     [MarkAttemptFailed 1 ''Connector is null'']
   \<and> map_option a_status (get_index_attempt
      (snd (kickoff_indexing_jobs machine4 [] handing_client falsy_client dispatch_store)) 1) =
     Some FAILED
   \<and> calls_about 2 (new_calls dispatch_store
      (snd (kickoff_indexing_jobs machine4 [] handing_client falsy_client dispatch_store))) =
     [MarkAttemptFailed 2 ''Credential is null'']
   \<and> calls_about 3 (new_calls dispatch_store
      (snd (kickoff_indexing_jobs machine4 [] handing_client falsy_client dispatch_store))) =
     [Submit SecondaryClient 3 4]
   \<and> get_index_attempt
      (snd (kickoff_indexing_jobs machine4 [] handing_client falsy_client dispatch_store)) 3 =
     Some (waiting 3 1 1 20)
   \<and> map_of (fst (kickoff_indexing_jobs machine4 [] handing_client falsy_client dispatch_store)) 3 =
     None
   \<and> calls_about 4 (new_calls dispatch_store
      (snd (kickoff_indexing_jobs machine4 [] handing_client falsy_client dispatch_store))) =
     [Submit PrimaryClient 4 4]
   \<and> map_of (fst (kickoff_indexing_jobs machine4 [] handing_client falsy_client dispatch_store)) 4 =
     Some \<lparr>job_status = JobPending\<rparr>"
proof -
  have d: "distinct (map a_id (index_attempts dispatch_store))"
    by (simp add: dispatch_store_eval)
  have t: "\<And>i::int. i \<notin> set (map fst ([] :: jobs))"
    by simp
  have a1: "waiting 1 9 1 10 \<in> set (index_attempts dispatch_store)"
    "a_status (waiting 1 9 1 10) = NOT_STARTED" "a_id (waiting 1 9 1 10) = 1"
    "attempt_connector dispatch_store (waiting 1 9 1 10) = None"
    by (simp_all add: dispatch_store_eval)
  have a2: "waiting 2 1 9 10 \<in> set (index_attempts dispatch_store)"
    "a_status (waiting 2 1 9 10) = NOT_STARTED" "a_id (waiting 2 1 9 10) = 2"
    "attempt_connector dispatch_store (waiting 2 1 9 10) =
       Some \<lparr>c_id = 1, c_name = ''web'', c_disabled = False, c_refresh_freq = Some 60, c_credentials = [1]\<rparr>"
    "attempt_credential dispatch_store (waiting 2 1 9 10) = None"
    by (simp_all add: dispatch_store_eval)
  have a3: "waiting 3 1 1 20 \<in> set (index_attempts dispatch_store)"
    "a_status (waiting 3 1 1 20) = NOT_STARTED" "a_id (waiting 3 1 1 20) = 3"
    "attempt_connector dispatch_store (waiting 3 1 1 20) =
       Some \<lparr>c_id = 1, c_name = ''web'', c_disabled = False, c_refresh_freq = Some 60, c_credentials = [1]\<rparr>"
    "attempt_credential dispatch_store (waiting 3 1 1 20) = Some 1"
    "attempt_embedding_model dispatch_store (waiting 3 1 1 20) = Some \<lparr>m_id = 20, m_status = FUTURE\<rparr>"
    by (simp_all add: dispatch_store_eval)
  have a4: "waiting 4 1 1 10 \<in> set (index_attempts dispatch_store)"
    "a_status (waiting 4 1 1 10) = NOT_STARTED" "a_id (waiting 4 1 1 10) = 4"
    "attempt_connector dispatch_store (waiting 4 1 1 10) =
       Some \<lparr>c_id = 1, c_name = ''web'', c_disabled = False, c_refresh_freq = Some 60, c_credentials = [1]\<rparr>"
    "attempt_credential dispatch_store (waiting 4 1 1 10) = Some 1"
    "attempt_embedding_model dispatch_store (waiting 4 1 1 10) = Some \<lparr>m_id = 10, m_status = PRESENT\<rparr>"
    by (simp_all add: dispatch_store_eval)
  have n: "get_num_threads machine4 = 4"
    "submit falsy_client 3 4 = None" "submit handing_client 4 4 = Some \<lparr>job_status = JobPending\<rparr>"
    by (simp_all add: dispatch_store_eval)
  note r1 = kickoff_indexing_jobs_dispatch [OF d a1(1) a1(2), of "[]" machine4 handing_client falsy_client]
  note r2 = kickoff_indexing_jobs_dispatch [OF d a2(1) a2(2), of "[]" machine4 handing_client falsy_client]
  note r3 = kickoff_indexing_jobs_dispatch [OF d a3(1) a3(2), of "[]" machine4 handing_client falsy_client]
  note r4 = kickoff_indexing_jobs_dispatch [OF d a4(1) a4(2), of "[]" machine4 handing_client falsy_client]
  show ?thesis
    using r1 r2 r3 r4 a1(3,4) a2(3-5) a3(3-6) a4(3-6) n
    by simp
qed

text \<open>
  C10. For every NOT_STARTED attempt that is not tracked, whose connector and credential
  rows exist and whose embedding model is \<^verbatim>\<open>None\<close>: the attempt is not marked failed,
  \<^verbatim>\<open>use_secondary_index\<close> is false, and the only call about the attempt is one
  \<^verbatim>\<open>submit\<close> on the primary client; its row is left as it was and its entry in the
  returned dictionary is what the primary client's \<^verbatim>\<open>submit\<close> returned.
\<close>

theorem kickoff_indexing_jobs_null_model:
  assumes "distinct (map a_id (index_attempts w))"
    and "a \<in> set (index_attempts w)" and "a_status a = NOT_STARTED"
    and "a_id a \<notin> set (map fst existing_jobs)"
    and "attempt_connector w a \<noteq> None" and "attempt_credential w a \<noteq> None"
    and "attempt_embedding_model w a = None"
  shows "calls_about (a_id a) (new_calls w (snd (kickoff_indexing_jobs m existing_jobs c s w))) =
        [Submit PrimaryClient (a_id a) (get_num_threads m)] \<and>
      get_index_attempt (snd (kickoff_indexing_jobs m existing_jobs c s w)) (a_id a) = Some a \<and>
      map_of (fst (kickoff_indexing_jobs m existing_jobs c s w)) (a_id a) =
        submit c (a_id a) (get_num_threads m)"
proof -
  obtain evs where evs: "calls (snd (kickoff_indexing_jobs m existing_jobs c s w)) = calls w @ evs"
    "(calls_about (a_id a) evs,
      get_index_attempt (snd (kickoff_indexing_jobs m existing_jobs c s w)) (a_id a),
      map_of (fst (kickoff_indexing_jobs m existing_jobs c s w)) (a_id a))
     = (fst (kickoff_outcome m c s w a (attempt_embedding_model w a) None),
        Some (fst (snd (kickoff_outcome m c s w a (attempt_embedding_model w a) None))),
        snd (snd (kickoff_outcome m c s w a (attempt_embedding_model w a) None)))"
    using kickoff_indexing_jobs_outcome [OF assms(1-4), of m c s] by blast
  have n: "new_calls w (snd (kickoff_indexing_jobs m existing_jobs c s w)) = evs"
    using evs(1) by (rule new_calls_append)
  show ?thesis
    using evs(2) assms(5-7) unfolding n
    by (auto simp: kickoff_outcome_def chosen_client_def submitted_def use_secondary_def
          split: option.splits)
qed

theorem kickoff_indexing_jobs_null_model_witness:
  "attempt_embedding_model dispatch_store (waiting 5 1 1 30) = None
   \<and> calls_about 5 (new_calls dispatch_store
      (snd (kickoff_indexing_jobs machine4 [] handing_client falsy_client dispatch_store))) =
     [Submit PrimaryClient 5 4]
   \<and> get_index_attempt
      (snd (kickoff_indexing_jobs machine4 [] handing_client falsy_client dispatch_store)) 5 =
     Some (waiting 5 1 1 30)
   \<and> map_of (fst (kickoff_indexing_jobs machine4 [] handing_client falsy_client dispatch_store)) 5 =
     Some \<lparr>job_status = JobPending\<rparr>"
proof -
  have d: "distinct (map a_id (index_attempts dispatch_store))"
    by (simp add: dispatch_store_eval)
  have a5: "waiting 5 1 1 30 \<in> set (index_attempts dispatch_store)"
    "a_status (waiting 5 1 1 30) = NOT_STARTED"
    "a_id (waiting 5 1 1 30) \<notin> set (map fst ([] :: jobs))"
    "attempt_connector dispatch_store (waiting 5 1 1 30) \<noteq> None"
    "attempt_credential dispatch_store (waiting 5 1 1 30) \<noteq> None"
    "attempt_embedding_model dispatch_store (waiting 5 1 1 30) = None"
    by (simp_all add: dispatch_store_eval)
  have n: "a_id (waiting 5 1 1 30) = 5" "get_num_threads machine4 = 4"
    "submit handing_client 5 4 = Some \<lparr>job_status = JobPending\<rparr>"
    by (simp_all add: dispatch_store_eval)
  show ?thesis
    using kickoff_indexing_jobs_null_model [OF d a5, of machine4 handing_client falsy_client]
      a5(6) n
    by simp
qed

subsection \<open>The reaper\<close>

lemma present_pair_keys:
  "present_pair w c k \<longleftrightarrow>
     (\<exists>x \<in> set (map attempt_keys (index_attempts w)).
        fst (snd x) = Some c \<and> fst (snd (snd x)) = Some k \<and>
        map_option m_status (find (\<lambda>m. m_id m = snd (snd (snd x))) (embedding_models w)) = Some PRESENT)"
  by (auto simp: present_pair_def attempt_keys_def attempt_embedding_model_def)

lemma present_pair_cong:
  "map attempt_keys (index_attempts w') = map attempt_keys (index_attempts w) \<Longrightarrow>
   embedding_models w' = embedding_models w \<Longrightarrow> present_pair w' c k = present_pair w c k"
  unfolding present_pair_keys by simp

lemma justified_call_cong:
  "map attempt_keys (index_attempts w') = map attempt_keys (index_attempts w) \<Longrightarrow>
   embedding_models w' = embedding_models w \<Longrightarrow> justified_call w' e = justified_call w e"
  by (cases e) (simp_all add: present_pair_cong [of w' w])

lemma evolves_refl [simp]: "evolves w w"
  by (simp add: evolves_def)

lemma evolves_new_calls: "evolves w w' \<Longrightarrow> calls w' = calls w @ new_calls w w'"
  by (auto simp: evolves_def new_calls_def)

lemma evolves_trans:
  assumes "evolves w w'" "evolves w' w''"
  shows "evolves w w''"
proof -
  obtain e1 where e1: "calls w' = calls w @ e1" "list_all (justified_call w) e1"
    using assms(1) unfolding evolves_def by blast
  obtain e2 where e2: "calls w'' = calls w' @ e2" "list_all (justified_call w') e2"
    using assms(2) unfolding evolves_def by blast
  have k: "map attempt_keys (index_attempts w') = map attempt_keys (index_attempts w)"
    "embedding_models w' = embedding_models w"
    using assms(1) unfolding evolves_def by simp_all
  have "justified_call w' = justified_call w"
    using justified_call_cong [OF k] by (intro ext)
  then have "list_all (justified_call w) (e1 @ e2)"
    using e1(2) e2(2) by simp
  moreover have "calls w'' = calls w @ (e1 @ e2)"
    using e1(1) e2(1) by simp
  ultimately have "\<exists>evs. calls w'' = calls w @ evs \<and> list_all (justified_call w) evs"
    by blast
  then show ?thesis
    using assms unfolding evolves_def by simp
qed

lemma new_calls_trans:
  "evolves w w' \<Longrightarrow> evolves w' w'' \<Longrightarrow> new_calls w w'' = new_calls w w' @ new_calls w' w''"
  by (auto simp: evolves_def new_calls_def)

lemma untouched_refl [simp]: "untouched i w w"
  by (simp add: untouched_def new_calls_def)

lemma untouched_trans:
  assumes "untouched i w w'" "untouched i w' w''"
  shows "untouched i w w''"
proof -
  have e: "evolves w w'" "evolves w' w''"
    using assms unfolding untouched_def by simp_all
  have "calls_about i (new_calls w w'') = []"
    using assms unfolding untouched_def new_calls_trans [OF e] by simp
  then show ?thesis
    using assms evolves_trans [OF e] unfolding untouched_def by simp
qed

lemma key_member_row: "b \<in> set (index_attempts w) \<Longrightarrow> key_member b w"
  by (simp add: key_member_def)

lemma key_member_evolves: "evolves w w' \<Longrightarrow> key_member b w \<Longrightarrow> key_member b w'"
  by (simp add: key_member_def evolves_def)

lemma key_member_present_pair:
  assumes "key_member b w" "connector_id b = Some c" "credential_id b = Some k"
    "map_option m_status (attempt_embedding_model w b) = Some PRESENT"
  shows "present_pair w c k"
proof -
  obtain x where x: "x \<in> set (index_attempts w)" "attempt_keys x = attempt_keys b"
    using assms(1) unfolding key_member_def by auto
  have "connector_id x = Some c" "credential_id x = Some k"
    "attempt_embedding_model w x = attempt_embedding_model w b"
    using x(2) assms(2,3) by (simp_all add: attempt_keys_def attempt_embedding_model_def)
  then show ?thesis
    using x(1) assms(4) unfolding present_pair_def by auto
qed

lemma attempt_keys_fail_row [simp]: "attempt_keys (fail_row i r t a) = attempt_keys a"
  by (simp add: attempt_keys_def)

lemma evolves_emit: "justified_call w e \<Longrightarrow> evolves w (emit e w)"
  by (simp add: evolves_def)

lemma untouched_emit:
  "justified_call w e \<Longrightarrow> call_attempt e \<noteq> Some i \<Longrightarrow> untouched i w (emit e w)"
  by (simp add: untouched_def evolves_emit)

lemma evolves_mark_attempt_failed: "evolves w (mark_attempt_failed b w r)"
  by (simp add: evolves_def o_def)

lemma untouched_mark_attempt_failed:
  "a_id b \<noteq> i \<Longrightarrow> untouched i w (mark_attempt_failed b w r)"
  by (simp add: untouched_def evolves_mark_attempt_failed get_index_attempt_mark_other)

lemma evolves_update_cc:
  "present_pair w c k \<Longrightarrow> evolves w (update_connector_credential_pair w c k FAILED)"
  by (simp add: evolves_def)

lemma untouched_update_cc:
  "present_pair w c k \<Longrightarrow> untouched i w (update_connector_credential_pair w c k FAILED)"
  by (simp add: untouched_def evolves_update_cc get_index_attempt_def)

lemma mark_run_failed_world:
  "snd (mark_run_failed w b r) =
     (let w2 = mark_attempt_failed b
                 (emit (Log WARNING ''Marking in-progress attempt as failed'' [a_id b]) w) r
      in if cc_update_calls w b = [] then w2
         else update_connector_credential_pair w2 (the (connector_id b)) (the (credential_id b)) FAILED)"
  by (auto simp: mark_run_failed_def Let_def attempt_embedding_model_def cc_update_calls_def
        split: option.splits)

lemma cc_update_calls_present:
  "cc_update_calls w b \<noteq> [] \<Longrightarrow> key_member b w \<Longrightarrow>
   present_pair w (the (connector_id b)) (the (credential_id b)) \<and>
   cc_update_calls w b =
     [UpdateConnectorCredentialPair (the (connector_id b)) (the (credential_id b)) FAILED]"
  by (auto simp: cc_update_calls_def split: option.splits if_splits
        intro: key_member_present_pair)

lemma evolves_mark_run_failed:
  assumes "key_member b w"
  shows "evolves w (snd (mark_run_failed w b r))"
proof -
  define w1 where "w1 = emit (Log WARNING ''Marking in-progress attempt as failed'' [a_id b]) w"
  define w2 where "w2 = mark_attempt_failed b w1 r"
  have e1: "evolves w w1"
    unfolding w1_def by (rule evolves_emit) simp
  have e2: "evolves w1 w2"
    unfolding w2_def by (rule evolves_mark_attempt_failed)
  have e12: "evolves w w2"
    using e1 e2 by (rule evolves_trans)
  show ?thesis
  proof (cases "cc_update_calls w b = []")
    case True
    then show ?thesis
      using e12 by (simp add: mark_run_failed_world w1_def w2_def)
  next
    case False
    have "present_pair w (the (connector_id b)) (the (credential_id b))"
      using cc_update_calls_present [OF False assms] by simp
    then have "present_pair w2 (the (connector_id b)) (the (credential_id b))"
      using e12 present_pair_cong [of w2 w] by (simp add: evolves_def)
    then have "evolves w2 (update_connector_credential_pair w2 (the (connector_id b))
        (the (credential_id b)) FAILED)"
      by (rule evolves_update_cc)
    then show ?thesis
      using False evolves_trans [OF e12]
      by (simp add: mark_run_failed_world w1_def w2_def)
  qed
qed

lemma mark_run_failed_new_calls:
  assumes "key_member b w"
  shows "new_calls w (snd (mark_run_failed w b r)) =
     [Log WARNING ''Marking in-progress attempt as failed'' [a_id b], MarkAttemptFailed (a_id b) r]
     @ cc_update_calls w b"
proof (cases "cc_update_calls w b = []")
  case True
  then show ?thesis
    by (simp add: mark_run_failed_world new_calls_def)
next
  case False
  then show ?thesis
    using cc_update_calls_present [OF False assms]
    by (simp add: mark_run_failed_world new_calls_def)
qed

lemma mark_run_failed_row:
  "get_index_attempt (snd (mark_run_failed w b r)) i =
     map_option (fail_row (a_id b) r (db_time w)) (get_index_attempt w i)"
  by (simp add: mark_run_failed_world Let_def get_index_attempt_def find_map_invariant)

lemma calls_about_cc_update_calls [simp]: "calls_about i (cc_update_calls w b) = []"
  by (simp add: cc_update_calls_def split: option.splits)

lemma untouched_mark_run_failed:
  assumes "key_member b w" "a_id b \<noteq> i"
  shows "untouched i w (snd (mark_run_failed w b r))"
proof -
  have "get_index_attempt (snd (mark_run_failed w b r)) i = get_index_attempt w i"
    using assms(2) unfolding mark_run_failed_row
    by (cases "get_index_attempt w i") (auto dest: get_index_attempt_id)
  then show ?thesis
    using assms evolves_mark_run_failed [OF assms(1), of r]
    by (simp add: untouched_def mark_run_failed_new_calls)
qed

lemma for_each_preserves:
  assumes "\<And>x s. x \<in> set xs \<Longrightarrow> P s \<Longrightarrow> P (snd (body x s))" and "P s"
  shows "P (snd (for_each body xs s))"
  using assms
proof (induction xs arbitrary: s)
  case Nil
  then show ?case by simp
next
  case (Cons x xs)
  have step: "P (snd (body x s))"
    using Cons.prems by simp
  show ?case
  proof (cases "body x s")
    case (Pair r s')
    show ?thesis
    proof (cases r)
      case (Inl e)
      then show ?thesis using step Pair by simp
    next
      case (Inr u)
      have "P (snd (for_each body xs s'))"
        using Cons.IH [of s'] Cons.prems(1) step Pair by simp
      then show ?thesis using Pair Inr by simp
    qed
  qed
qed

lemma for_each_ok_split:
  assumes "fst (for_each body (xs @ x # ys) s) = Inr u"
  shows "\<exists>s1 s2. for_each body xs s = (Inr (), s1) \<and> body x s1 = (Inr (), s2) \<and>
           for_each body ys s2 = for_each body (xs @ x # ys) s"
  using assms
proof (induction xs arbitrary: s)
  case Nil
  then show ?case
    by (cases "body x s") (auto split: sum.splits)
next
  case (Cons y xs)
  obtain r s' where b: "body y s = (r, s')" by (cases "body y s")
  show ?case
  proof (cases r)
    case (Inl e)
    then show ?thesis using Cons.prems b by simp
  next
    case (Inr v)
    then have "fst (for_each body (xs @ x # ys) s') = Inr u"
      using Cons.prems b by simp
    from Cons.IH [OF this] show ?thesis
      using b Inr by simp
  qed
qed

lemma evolves_ids: "evolves w w' \<Longrightarrow> map a_id (index_attempts w') = map a_id (index_attempts w)"
proof -
  assume "evolves w w'"
  then have "map (fst \<circ> attempt_keys) (index_attempts w') = map (fst \<circ> attempt_keys) (index_attempts w)"
    unfolding evolves_def map_map [symmetric] by simp
  then show ?thesis
    by (simp add: o_def attempt_keys_def)
qed

lemma cleanup_in_progress_attempt_evolves:
  assumes "key_member b w"
  shows "evolves w (snd (cleanup_in_progress_attempt jobs t b w))"
proof -
  have c: "evolves w (emit (JobCancel (a_id b)) w)"
    by (rule evolves_emit) simp
  have "evolves (emit (JobCancel (a_id b)) w)
      (snd (mark_run_failed (emit (JobCancel (a_id b)) w) b FROZEN_FAILURE_REASON))"
    by (rule evolves_mark_run_failed) (rule key_member_evolves [OF c assms])
  then have "evolves w (snd (mark_run_failed (emit (JobCancel (a_id b)) w) b FROZEN_FAILURE_REASON))"
    using c evolves_trans by blast
  then show ?thesis
    using evolves_mark_run_failed [OF assms, of UNEXPECTED_STATE_FAILURE_REASON]
    by (simp add: cleanup_in_progress_attempt_def Let_def)
qed

lemma cleanup_in_progress_attempt_untouched:
  assumes "key_member b w" "a_id b \<noteq> i"
  shows "untouched i w (snd (cleanup_in_progress_attempt jobs t b w))"
proof -
  have c: "untouched i w (emit (JobCancel (a_id b)) w)"
    using assms(2) by (intro untouched_emit) simp_all
  then have k: "key_member b (emit (JobCancel (a_id b)) w)"
    using assms(1) key_member_evolves unfolding untouched_def by blast
  have "untouched i w (snd (mark_run_failed (emit (JobCancel (a_id b)) w) b FROZEN_FAILURE_REASON))"
    using c untouched_mark_run_failed [OF k assms(2), of FROZEN_FAILURE_REASON]
    by (rule untouched_trans)
  then show ?thesis
    using untouched_mark_run_failed [OF assms, of UNEXPECTED_STATE_FAILURE_REASON]
    by (simp add: cleanup_in_progress_attempt_def Let_def)
qed

lemma untouched_key_member: "untouched i w w' \<Longrightarrow> key_member b w \<Longrightarrow> key_member b w'"
  unfolding untouched_def by (blast intro: key_member_evolves)

text \<open>A list of attempts none of which has the id \<open>i\<close> is swept without touching \<open>i\<close>.\<close>

lemma for_each_attempts_untouched:
  assumes "\<And>b. b \<in> set bs \<Longrightarrow> key_member b w \<and> a_id b \<noteq> i"
  shows "untouched i w (snd (for_each (cleanup_in_progress_attempt jobs t) bs w))"
proof (rule for_each_preserves [where P = "untouched i w"])
  fix b s assume b: "b \<in> set bs" and s: "untouched i w s"
  have "key_member b s"
    using assms [OF b] s untouched_key_member by blast
  then have "untouched i s (snd (cleanup_in_progress_attempt jobs t b s))"
    using assms [OF b] by (intro cleanup_in_progress_attempt_untouched) simp_all
  with s show "untouched i w (snd (cleanup_in_progress_attempt jobs t b s))"
    by (rule untouched_trans)
qed simp

lemma cleanup_connector_untouched:
  assumes d: "distinct (map a_id (index_attempts w))"
    and n: "\<not> selects c (get_index_attempt w i)"
  shows "untouched i w (snd (cleanup_connector jobs t c w))"
  unfolding cleanup_connector_def Let_def
proof (rule for_each_attempts_untouched)
  fix b assume "b \<in> set (get_inprogress_index_attempts (c_id c) w)"
  then have b: "b \<in> set (index_attempts w)" "connector_id b = Some (c_id c)" "a_status b = IN_PROGRESS"
    by (simp_all add: get_inprogress_index_attempts_def)
  have "get_index_attempt w (a_id b) = Some b"
    using d b(1) by (rule get_index_attempt_member)
  then have "a_id b \<noteq> i"
    using n b(2,3) by (auto simp: selects_def)
  then show "key_member b w \<and> a_id b \<noteq> i"
    using b(1) by (simp add: key_member_row)
qed

lemma sweep_untouched:
  assumes d: "distinct (map a_id (index_attempts w))"
    and n: "\<And>c. c \<in> set cs \<Longrightarrow> \<not> selects c (get_index_attempt w i)"
  shows "untouched i w (snd (for_each (cleanup_connector jobs t) cs w))"
proof (rule for_each_preserves [where P = "untouched i w"])
  fix c s assume c: "c \<in> set cs" and s: "untouched i w s"
  have "distinct (map a_id (index_attempts s))"
    using s d evolves_ids [of w s] by (simp add: untouched_def)
  moreover have "\<not> selects c (get_index_attempt s i)"
    using n [OF c] s by (simp add: untouched_def)
  ultimately have "untouched i s (snd (cleanup_connector jobs t c s))"
    by (rule cleanup_connector_untouched)
  with s show "untouched i w (snd (cleanup_connector jobs t c s))"
    by (rule untouched_trans)
qed simp

lemma find_key_map:
  "find P (map f xs) = map_option f (find (\<lambda>x. P (f x)) xs)"
  by (induction xs) simp_all

lemma evolves_row_keys:
  assumes "evolves w w'"
  shows "map_option attempt_keys (get_index_attempt w' i) =
         map_option attempt_keys (get_index_attempt w i)"
proof -
  have "\<And>v. map_option attempt_keys (get_index_attempt v i) =
      find (\<lambda>k. fst k = i) (map attempt_keys (index_attempts v))"
    by (simp add: find_key_map get_index_attempt_def attempt_keys_def)
  then show ?thesis
    using assms by (simp add: evolves_def)
qed

lemma evolves_not_selected:
  assumes "evolves w w'" "get_index_attempt w i = Some a" "connector_id a \<noteq> Some (c_id c)"
  shows "\<not> selects c (get_index_attempt w' i)"
proof -
  have "map_option attempt_keys (get_index_attempt w' i) = Some (attempt_keys a)"
    using evolves_row_keys [OF assms(1), of i] assms(2) by simp
  then obtain r where "get_index_attempt w' i = Some r" "attempt_keys r = attempt_keys a"
    by auto
  then show ?thesis
    using assms(3) by (simp add: selects_def attempt_keys_def)
qed

text \<open>What the sweep adds to the trace never begins with an update of a pair.\<close>

lemma no_update_first_append:
  "no_update_first e1 \<Longrightarrow> no_update_first e2 \<Longrightarrow> no_update_first (e1 @ e2)"
  by (cases e1) (simp_all add: no_update_first_def)

lemma headed_refl [simp]: "headed w w"
  by (simp add: headed_def no_update_first_def)

lemma headed_trans:
  assumes "headed w w'" "headed w' w''"
  shows "headed w w''"
proof -
  obtain e1 where e1: "calls w' = calls w @ e1" "no_update_first e1"
    using assms(1) unfolding headed_def by blast
  obtain e2 where e2: "calls w'' = calls w' @ e2" "no_update_first e2"
    using assms(2) unfolding headed_def by blast
  have "calls w'' = calls w @ (e1 @ e2)"
    using e1(1) e2(1) by simp
  then show ?thesis
    using no_update_first_append [OF e1(2) e2(2)] unfolding headed_def by blast
qed


lemma headed_emit: "\<not> is_pair_update e \<Longrightarrow> headed w (emit e w)"
  by (simp add: headed_def no_update_first_def)

lemma headed_mark_run_failed: "headed w (snd (mark_run_failed w b r))"
  by (simp add: mark_run_failed_world headed_def no_update_first_def Let_def)

lemma headed_cleanup_in_progress_attempt:
  "headed w (snd (cleanup_in_progress_attempt jobs t b w))"
proof -
  have "headed w (emit (JobCancel (a_id b)) w)"
    by (rule headed_emit) simp
  then have "headed w (snd (mark_run_failed (emit (JobCancel (a_id b)) w) b FROZEN_FAILURE_REASON))"
    using headed_mark_run_failed by (rule headed_trans)
  then show ?thesis
    using headed_mark_run_failed [of w b UNEXPECTED_STATE_FAILURE_REASON]
    by (simp add: cleanup_in_progress_attempt_def Let_def)
qed

lemma headed_for_each_attempts:
  "headed w (snd (for_each (cleanup_in_progress_attempt jobs t) bs w))"
proof (rule for_each_preserves [where P = "headed w"])
  fix b s assume "headed w s"
  then show "headed w (snd (cleanup_in_progress_attempt jobs t b s))"
    using headed_cleanup_in_progress_attempt by (rule headed_trans)
qed simp

lemma headed_sweep: "headed w (snd (for_each (cleanup_connector jobs t) cs w))"
proof (rule for_each_preserves [where P = "headed w"])
  fix c s assume "headed w s"
  moreover have "headed s (snd (cleanup_connector jobs t c s))"
    unfolding cleanup_connector_def Let_def by (rule headed_for_each_attempts)
  ultimately show "headed w (snd (cleanup_connector jobs t c s))"
    by (rule headed_trans)
qed simp

lemma connector_own:
  assumes d: "distinct (map a_id (index_attempts s1))"
    and row: "get_index_attempt s1 i = Some a" "connector_id a = Some (c_id c)"
      "a_status a = IN_PROGRESS"
    and ok: "cleanup_connector jobs t c s1 = (Inr (), s2)"
  shows "\<exists>t1 t2. untouched i s1 t1 \<and> cleanup_in_progress_attempt jobs t a t1 = (Inr (), t2) \<and>
           evolves t1 t2 \<and> untouched i t2 s2 \<and> headed t2 s2"
proof -
  define bs where "bs = get_inprogress_index_attempts (c_id c) s1"
  have i: "a_id a = i"
    using row(1) by (rule get_index_attempt_id)
  have am: "a \<in> set (index_attempts s1)"
    using row(1) by (auto simp: get_index_attempt_def find_Some_iff in_set_conv_nth)
  then have "a \<in> set bs"
    using row(2,3) by (simp add: bs_def get_inprogress_index_attempts_def)
  then obtain l1 l2 where bs: "bs = l1 @ a # l2"
    by (meson split_list)
  have db: "distinct (map a_id bs)"
    using d by (simp add: bs_def get_inprogress_index_attempts_def distinct_map_filter)
  have rows: "\<And>b. b \<in> set bs \<Longrightarrow> key_member b s1"
    by (simp add: bs_def get_inprogress_index_attempts_def key_member_row)
  have l1: "\<And>b. b \<in> set l1 \<Longrightarrow> key_member b s1 \<and> a_id b \<noteq> i"
    using db rows unfolding bs i [symmetric] by (fastforce simp: image_iff)
  have l2: "\<And>b. b \<in> set l2 \<Longrightarrow> key_member b s1 \<and> a_id b \<noteq> i"
    using db rows unfolding bs i [symmetric] by (fastforce simp: image_iff)
  have run: "for_each (cleanup_in_progress_attempt jobs t) (l1 @ a # l2) s1 = (Inr (), s2)"
    using ok unfolding cleanup_connector_def Let_def bs_def [symmetric] bs by simp
  then have "fst (for_each (cleanup_in_progress_attempt jobs t) (l1 @ a # l2) s1) = Inr ()"
    by simp
  from for_each_ok_split [OF this] obtain t1 t2 where
    t1: "for_each (cleanup_in_progress_attempt jobs t) l1 s1 = (Inr (), t1)" and
    t2: "cleanup_in_progress_attempt jobs t a t1 = (Inr (), t2)" and
    t3: "for_each (cleanup_in_progress_attempt jobs t) l2 t2 = (Inr (), s2)"
    using run by auto
  have u1: "untouched i s1 t1"
    using for_each_attempts_untouched [of l1 s1 i jobs t] l1 t1 by simp
  have ka: "key_member a t1"
    using u1 am untouched_key_member key_member_row by blast
  have e2: "evolves t1 t2"
    using cleanup_in_progress_attempt_evolves [OF ka, of jobs t] t2 by simp
  have "\<And>b. b \<in> set l2 \<Longrightarrow> key_member b t2 \<and> a_id b \<noteq> i"
    using l2 u1 e2 untouched_key_member key_member_evolves by blast
  then have u3: "untouched i t2 s2"
    using for_each_attempts_untouched [of l2 t2 i jobs t] t3 by simp
  have h3: "headed t2 s2"
    using headed_for_each_attempts [of t2 jobs t l2] t3 by simp
  show ?thesis
    using u1 t2 e2 u3 h3 by blast
qed

lemma sweep_own:
  assumes d: "distinct (map a_id (index_attempts w))"
    and dc: "distinct (map c_id cs)"
    and c: "cid \<in> set (map c_id cs)"
    and row: "get_index_attempt w i = Some a" "connector_id a = Some cid" "a_status a = IN_PROGRESS"
    and ok: "for_each (cleanup_connector jobs t) cs w = (Inr (), w')"
  shows "\<exists>w1 w2. untouched i w w1 \<and> cleanup_in_progress_attempt jobs t a w1 = (Inr (), w2) \<and>
           evolves w1 w2 \<and> untouched i w2 w' \<and> headed w2 w'"
proof -
  obtain c where "c \<in> set cs" and cid: "c_id c = cid"
    using c by auto
  then obtain cs1 cs2 where cs: "cs = cs1 @ c # cs2"
    by (meson split_list)
  have o1: "\<And>c'. c' \<in> set cs1 \<Longrightarrow> c_id c' \<noteq> cid"
    and o2: "\<And>c'. c' \<in> set cs2 \<Longrightarrow> c_id c' \<noteq> cid"
    using dc unfolding cs cid [symmetric] by (fastforce simp: image_iff)+
  have "fst (for_each (cleanup_connector jobs t) (cs1 @ c # cs2) w) = Inr ()"
    using ok unfolding cs by simp
  from for_each_ok_split [OF this] obtain s1 s2 where
    s1: "for_each (cleanup_connector jobs t) cs1 w = (Inr (), s1)" and
    s2: "cleanup_connector jobs t c s1 = (Inr (), s2)" and
    s3: "for_each (cleanup_connector jobs t) cs2 s2 = (Inr (), w')"
    using ok unfolding cs by auto
  have "\<And>c'. c' \<in> set cs1 \<Longrightarrow> \<not> selects c' (get_index_attempt w i)"
    using o1 row by (auto simp: selects_def)
  then have u1: "untouched i w s1"
    using sweep_untouched [OF d, of cs1 i jobs t] s1 by simp
  have d1: "distinct (map a_id (index_attempts s1))"
    using u1 d evolves_ids [of w s1] by (simp add: untouched_def)
  have r1: "get_index_attempt s1 i = Some a"
    using u1 row(1) by (simp add: untouched_def)
  obtain t1 t2 where t: "untouched i s1 t1" "cleanup_in_progress_attempt jobs t a t1 = (Inr (), t2)"
    "evolves t1 t2" "untouched i t2 s2" "headed t2 s2"
    using connector_own [OF d1 r1 _ row(3) s2] row(2) cid by blast
  have e: "evolves w s2"
    using u1 t evolves_trans unfolding untouched_def by blast
  have d2: "distinct (map a_id (index_attempts s2))"
    using d evolves_ids [OF e] by simp
  have "\<And>c'. c' \<in> set cs2 \<Longrightarrow> \<not> selects c' (get_index_attempt s2 i)"
    using o2 row(2) evolves_not_selected [OF e row(1)] by fastforce
  then have u3: "untouched i s2 w'"
    using sweep_untouched [OF d2, of cs2 i jobs t] s3 by simp
  have "headed s2 w'"
    using headed_sweep [of s2 jobs t cs2] s3 by simp
  then have h: "headed t2 w'"
    using t(5) headed_trans by blast
  have "untouched i w t1" "untouched i t2 w'"
    using u1 t(1) t(4) u3 untouched_trans by blast+
  then show ?thesis
    using t(2,3) h by blast
qed

lemma cleanup_job_untouched:
  assumes "fst entry = i \<longrightarrow>
      \<not> done_job (snd entry) \<and> \<not> is_indexing_job_marked_as_finished (get_index_attempt w i)"
  shows "untouched i w (snd (snd (cleanup_job entry (copy, w))))"
proof (cases "fst entry = i")
  case True
  then show ?thesis
    using assms by (cases entry) (simp add: cleanup_job_def)
next
  case False
  obtain j job where entry: "entry = (j, job)" by (cases entry)
  have j: "j \<noteq> i" using False entry by simp
  define w1 where "w1 = (if job_status job = JobError
      then emit (Log ERROR ''job.exception()'' [j]) w else w)"
  define w2 where "w2 = emit (JobRelease j) w1"
  have u1: "untouched i w w1"
    unfolding w1_def by (simp add: untouched_emit)
  have "untouched i w1 w2"
    unfolding w2_def using j by (intro untouched_emit) simp_all
  with u1 have u2: "untouched i w w2"
    by (rule untouched_trans)
  have u3: "untouched i w (emit (Log ERROR
      ''Unable to find IndexAttempt for ID when cleaning up indexing jobs'' [j]) w2)"
    using u2 by (rule untouched_trans) (simp add: untouched_emit)
  have u4: "untouched i w (snd (mark_run_failed w2 b UNEXPECTED_STATE_FAILURE_REASON))"
    if "get_index_attempt w j = Some b" for b
  proof -
    have "b \<in> set (index_attempts w)"
      using that by (auto simp: get_index_attempt_def find_Some_iff in_set_conv_nth)
    then have "key_member b w2"
      using u2 key_member_row untouched_key_member by blast
    moreover have "a_id b \<noteq> i"
      using that j get_index_attempt_id by blast
    ultimately show ?thesis
      using u2 untouched_mark_run_failed untouched_trans by blast
  qed
  show ?thesis
    using u2 u3 u4
    by (auto simp: entry cleanup_job_def Let_def w1_def w2_def split: option.splits prod.splits)
qed

lemma loop1_untouched:
  assumes "\<And>job. (i, job) \<in> set xs \<Longrightarrow>
      \<not> done_job job \<and> \<not> is_indexing_job_marked_as_finished (get_index_attempt w i)"
  shows "untouched i w (snd (snd (for_each cleanup_job xs (copy, w))))"
proof (rule for_each_preserves [where P = "\<lambda>s. untouched i w (snd s)"])
  fix entry and s :: "jobs \<times> World"
  assume e: "entry \<in> set xs" and s: "untouched i w (snd s)"
  have "fst entry = i \<longrightarrow> \<not> done_job (snd entry) \<and>
      \<not> is_indexing_job_marked_as_finished (get_index_attempt (snd s) i)"
    using assms [of "snd entry"] e s by (cases entry) (auto simp: untouched_def)
  then have "untouched i (snd s) (snd (snd (cleanup_job entry (fst s, snd s))))"
    by (rule cleanup_job_untouched)
  with s show "untouched i w (snd (snd (cleanup_job entry s)))"
    using untouched_trans by simp
qed simp

lemma get_index_attempt_row: "get_index_attempt w i = Some b \<Longrightarrow> b \<in> set (index_attempts w)"
  by (auto simp: get_index_attempt_def find_Some_iff in_set_conv_nth)

lemma untouched_evolves: "untouched i w w' \<Longrightarrow> evolves w w'"
  by (simp add: untouched_def)

lemma cleanup_indexing_jobs_own:
  assumes d: "distinct (map a_id (index_attempts w))"
    and dc: "distinct (map c_id (connectors w))"
    and a: "a \<in> set (index_attempts w)" "a_status a = IN_PROGRESS"
    and c: "connector_id a = Some cid" "cid \<in> set (map c_id (connectors w))"
    and nd: "\<And>job. (a_id a, job) \<in> set jobs \<Longrightarrow> \<not> done_job job"
    and ok: "cleanup_indexing_jobs jobs t w = (Inr jobs', w')"
  shows "\<exists>w1 w2. untouched (a_id a) w w1 \<and>
           cleanup_in_progress_attempt jobs t a w1 = (Inr (), w2) \<and>
           evolves w1 w2 \<and> untouched (a_id a) w2 w' \<and> headed w2 w'"
proof -
  have row: "get_index_attempt w (a_id a) = Some a"
    using d a(1) by (rule get_index_attempt_member)
  obtain r copy wa where l1: "for_each cleanup_job jobs (jobs, w) = (r, (copy, wa))"
    by (metis surj_pair)
  have sweep: "for_each (cleanup_connector jobs t) (connectors wa) wa = (Inr (), w')"
    using ok l1 unfolding cleanup_indexing_jobs_def Let_def fetch_connectors_def
    by (auto split: sum.splits prod.splits)
  have "\<And>job. (a_id a, job) \<in> set jobs \<Longrightarrow>
      \<not> done_job job \<and> \<not> is_indexing_job_marked_as_finished (get_index_attempt w (a_id a))"
    using nd row a(2) by (simp add: is_indexing_job_marked_as_finished_def)
  then have u0: "untouched (a_id a) w wa"
    using loop1_untouched [of "a_id a" jobs w jobs] l1 by simp
  have ea: "evolves w wa"
    using u0 by (rule untouched_evolves)
  have ca: "connectors wa = connectors w"
    using ea by (simp add: evolves_def)
  have da: "distinct (map a_id (index_attempts wa))"
    using d evolves_ids [OF ea] by simp
  have ra: "get_index_attempt wa (a_id a) = Some a"
    using u0 row by (simp add: untouched_def)
  obtain w1 w2 where w12: "untouched (a_id a) wa w1"
    "cleanup_in_progress_attempt jobs t a w1 = (Inr (), w2)" "evolves w1 w2"
    "untouched (a_id a) w2 w'" "headed w2 w'"
    using sweep_own [OF da _ _ ra c(1) a(2) sweep] dc c(2) unfolding ca by blast
  have "untouched (a_id a) w w1"
    using u0 w12(1) by (rule untouched_trans)
  then show ?thesis
    using w12 by blast
qed

text \<open>What the decomposition gives for the trace and the row.\<close>

lemma own_trace:
  assumes "untouched i w w1" "evolves w1 w2" "untouched i w2 w'"
  shows "evolves w w'"
    and "calls_about i (new_calls w w') = calls_about i (new_calls w1 w2)"
    and "get_index_attempt w' i = get_index_attempt w2 i"
    and "new_calls w w' = new_calls w w1 @ new_calls w1 w2 @ new_calls w2 w'"
proof -
  have e1: "evolves w w1" and e3: "evolves w2 w'"
    using assms by (simp_all add: untouched_def)
  have e12: "evolves w w2"
    using e1 assms(2) by (rule evolves_trans)
  show e: "evolves w w'"
    using e12 e3 by (rule evolves_trans)
  show n: "new_calls w w' = new_calls w w1 @ new_calls w1 w2 @ new_calls w2 w'"
    using new_calls_trans [OF e12 e3] new_calls_trans [OF e1 assms(2)] by simp
  show "calls_about i (new_calls w w') = calls_about i (new_calls w1 w2)"
    using assms(1,3) unfolding n by (simp add: untouched_def)
  show "get_index_attempt w' i = get_index_attempt w2 i"
    using assms(3) by (simp add: untouched_def)
qed



lemma mark_run_failed_own:
  assumes "get_index_attempt w1 (a_id a) = Some a" "\<not> is_terminal (a_status a)"
  shows "get_index_attempt (snd (mark_run_failed w1 a r)) (a_id a) =
      Some (a\<lparr>a_status := FAILED, error_msg := Some r, time_updated := db_time w1\<rparr>)"
    and "new_calls w1 (snd (mark_run_failed w1 a r)) =
      [Log WARNING ''Marking in-progress attempt as failed'' [a_id a], MarkAttemptFailed (a_id a) r]
      @ cc_update_calls w1 a"
proof -
  show "get_index_attempt (snd (mark_run_failed w1 a r)) (a_id a) =
      Some (a\<lparr>a_status := FAILED, error_msg := Some r, time_updated := db_time w1\<rparr>)"
    using assms by (simp add: mark_run_failed_row fail_row_def)
  have "key_member a w1"
    using assms(1) get_index_attempt_row key_member_row by blast
  then show "new_calls w1 (snd (mark_run_failed w1 a r)) =
      [Log WARNING ''Marking in-progress attempt as failed'' [a_id a], MarkAttemptFailed (a_id a) r]
      @ cc_update_calls w1 a"
    by (rule mark_run_failed_new_calls)
qed



lemma cleanup_stall_effects:
  assumes d: "distinct (map a_id (index_attempts w))"
    and dc: "distinct (map c_id (connectors w))"
    and a: "a \<in> set (index_attempts w)" "a_status a = IN_PROGRESS"
      "a_id a \<in> set (map fst jobs)"
    and nd: "\<And>job. (a_id a, job) \<in> set jobs \<Longrightarrow> \<not> done_job job"
    and c: "connector_id a = Some cid" "cid \<in> set (map c_id (connectors w))"
    and ok: "cleanup_indexing_jobs jobs t w = (Inr jobs', w')"
  shows "total_seconds (get_db_current_time w - time_updated a) > of_int (60 * 60 * t) \<Longrightarrow>
      calls_about (a_id a) (new_calls w w') =
        [JobCancel (a_id a), MarkAttemptFailed (a_id a) FROZEN_FAILURE_REASON] \<and>
      get_index_attempt w' (a_id a) =
        Some (a\<lparr>a_status := FAILED, error_msg := Some FROZEN_FAILURE_REASON,
                time_updated := db_time w\<rparr>)"
    and "\<not> total_seconds (get_db_current_time w - time_updated a) > of_int (60 * 60 * t) \<Longrightarrow>
      calls_about (a_id a) (new_calls w w') = [] \<and> get_index_attempt w' (a_id a) = Some a"
proof -
  obtain w1 w2 where w12: "untouched (a_id a) w w1"
    "cleanup_in_progress_attempt jobs t a w1 = (Inr (), w2)" "evolves w1 w2"
    "untouched (a_id a) w2 w'"
    using cleanup_indexing_jobs_own [OF d dc a(1,2) c nd ok] by blast
  have e1: "evolves w w1"
    using w12(1) by (rule untouched_evolves)
  have r1: "get_index_attempt w1 (a_id a) = Some a"
    using w12(1) get_index_attempt_member [OF d a(1)] by (simp add: untouched_def)
  have nt: "\<not> is_terminal (a_status a)"
    using a(2) by (simp add: is_terminal_def)
  have f: "db_time w1 = db_time w"
    using e1 by (simp add: evolves_def)
  note t = own_trace [OF w12(1) w12(3) w12(4)]
  { assume stalled: "total_seconds (get_db_current_time w - time_updated a) > of_int (60 * 60 * t)"
    define wc where "wc = emit (JobCancel (a_id a)) w1"
    have w2: "w2 = snd (mark_run_failed wc a FROZEN_FAILURE_REASON)"
      using w12(2) a(3) stalled f
      by (simp add: cleanup_in_progress_attempt_def get_db_current_time_def wc_def)
    have rc: "get_index_attempt wc (a_id a) = Some a"
      using r1 by (simp add: wc_def)
    note m = mark_run_failed_own [OF rc nt, of FROZEN_FAILURE_REASON, folded w2]
    have "key_member a wc"
      using rc get_index_attempt_row key_member_row by blast
    then have "evolves wc w2"
      unfolding w2 by (rule evolves_mark_run_failed)
    then have "calls w2 = calls w1 @ JobCancel (a_id a) # new_calls wc w2"
      using evolves_new_calls [of wc w2] by (simp add: wc_def)
    then have n: "new_calls w1 w2 = JobCancel (a_id a) # new_calls wc w2"
      by (rule new_calls_append)
    show "calls_about (a_id a) (new_calls w w') =
        [JobCancel (a_id a), MarkAttemptFailed (a_id a) FROZEN_FAILURE_REASON] \<and>
      get_index_attempt w' (a_id a) =
        Some (a\<lparr>a_status := FAILED, error_msg := Some FROZEN_FAILURE_REASON,
                time_updated := db_time w\<rparr>)"
      unfolding t(2) t(3) n m by (simp add: wc_def f) }
  { assume fresh: "\<not> total_seconds (get_db_current_time w - time_updated a) > of_int (60 * 60 * t)"
    have "w2 = w1"
      using w12(2) a(3) fresh f
      by (simp add: cleanup_in_progress_attempt_def get_db_current_time_def)
    then show "calls_about (a_id a) (new_calls w w') = [] \<and> get_index_attempt w' (a_id a) = Some a"
      unfolding t(2) t(3) using r1 by (simp add: new_calls_def) }
qed

subsection \<open>The reaper returns when every attempt has its embedding model\<close>

lemma models_exist_key_member:
  assumes "models_exist w" "key_member b w"
  shows "attempt_embedding_model w b \<noteq> None"
proof -
  obtain x where x: "x \<in> set (index_attempts w)" "attempt_keys x = attempt_keys b"
    using assms(2) unfolding key_member_def by auto
  have "attempt_embedding_model w x = attempt_embedding_model w b"
    using x(2) by (simp add: attempt_keys_def attempt_embedding_model_def)
  moreover have "attempt_embedding_model w x \<noteq> None"
    using assms(1) x(1) by (simp add: models_exist_def list_all_iff)
  ultimately show ?thesis by simp
qed

lemma models_exist_evolves:
  assumes "models_exist w" "evolves w w'" "key_member b w"
  shows "attempt_embedding_model w' b \<noteq> None"
proof -
  have "attempt_embedding_model w' b = attempt_embedding_model w b"
    using assms(2) by (simp add: evolves_def attempt_embedding_model_def)
  then show ?thesis
    using models_exist_key_member [OF assms(1,3)] by simp
qed

lemma key_member_evolves_back: "evolves w w' \<Longrightarrow> key_member b w' \<Longrightarrow> key_member b w"
  by (simp add: key_member_def evolves_def)

lemma mark_run_failed_ok:
  "attempt_embedding_model w b \<noteq> None \<Longrightarrow> fst (mark_run_failed w b r) = Inr ()"
  by (auto simp: mark_run_failed_def Let_def attempt_embedding_model_def split: option.splits)

lemma for_each_total:
  assumes "\<And>x s. x \<in> set xs \<Longrightarrow> P s \<Longrightarrow> fst (body x s) = Inr () \<and> P (snd (body x s))"
    and "P s"
  shows "fst (for_each body xs s) = Inr () \<and> P (snd (for_each body xs s))"
  using assms
proof (induction xs arbitrary: s)
  case Nil
  then show ?case by simp
next
  case (Cons x xs)
  have step: "fst (body x s) = Inr () \<and> P (snd (body x s))"
    using Cons.prems by simp
  then obtain s' where b: "body x s = (Inr (), s')" and p: "P s'"
    by (cases "body x s") auto
  have "fst (for_each body xs s') = Inr () \<and> P (snd (for_each body xs s'))"
    using Cons.IH [of s'] Cons.prems(1) p by simp
  then show ?case
    using b by simp
qed

lemma cleanup_in_progress_attempt_ok:
  "attempt_embedding_model w b \<noteq> None \<Longrightarrow> fst (cleanup_in_progress_attempt jobs t b w) = Inr ()"
  using mark_run_failed_ok [of w b] mark_run_failed_ok [of "emit (JobCancel (a_id b)) w" b]
  by (simp add: cleanup_in_progress_attempt_def Let_def attempt_embedding_model_def)

lemma cleanup_connector_total:
  assumes m: "models_exist w0" and e: "evolves w0 w"
  shows "fst (cleanup_connector jobs t c w) = Inr () \<and> evolves w0 (snd (cleanup_connector jobs t c w))"
  unfolding cleanup_connector_def Let_def
proof (rule for_each_total [where P = "evolves w0"])
  fix b s assume b: "b \<in> set (get_inprogress_index_attempts (c_id c) w)" and s: "evolves w0 s"
  have "key_member b w"
    using b by (simp add: get_inprogress_index_attempts_def key_member_row)
  then have k0: "key_member b w0"
    using e key_member_evolves_back by blast
  then have "key_member b s"
    using s key_member_evolves by blast
  then have "evolves s (snd (cleanup_in_progress_attempt jobs t b s))"
    by (rule cleanup_in_progress_attempt_evolves)
  with s have "evolves w0 (snd (cleanup_in_progress_attempt jobs t b s))"
    by (rule evolves_trans)
  moreover have "fst (cleanup_in_progress_attempt jobs t b s) = Inr ()"
    using models_exist_evolves [OF m s k0] by (rule cleanup_in_progress_attempt_ok)
  ultimately show "fst (cleanup_in_progress_attempt jobs t b s) = Inr () \<and>
      evolves w0 (snd (cleanup_in_progress_attempt jobs t b s))"
    by simp
qed (rule e)

lemma cleanup_job_total:
  assumes m: "models_exist w0" and e: "evolves w0 w"
  shows "fst (cleanup_job entry (copy, w)) = Inr () \<and>
         evolves w0 (snd (snd (cleanup_job entry (copy, w))))"
proof -
  have "untouched (fst entry + 1) w (snd (snd (cleanup_job entry (copy, w))))"
    by (rule cleanup_job_untouched) simp
  then have ev: "evolves w0 (snd (snd (cleanup_job entry (copy, w))))"
    using e evolves_trans untouched_evolves by blast
  obtain j job where entry: "entry = (j, job)" by (cases entry)
  have "fst (mark_run_failed w2 b UNEXPECTED_STATE_FAILURE_REASON) = Inr ()"
    if "get_index_attempt w j = Some b" "embedding_models w2 = embedding_models w" for b w2
  proof -
    have "key_member b w0"
      using that(1) e get_index_attempt_row key_member_row key_member_evolves_back by blast
    then have "attempt_embedding_model w b \<noteq> None"
      using models_exist_evolves [OF m e] by simp
    then have "attempt_embedding_model w2 b \<noteq> None"
      using that(2) by (simp add: attempt_embedding_model_def)
    then show ?thesis by (rule mark_run_failed_ok)
  qed
  then have "fst (cleanup_job entry (copy, w)) = Inr ()"
    by (simp add: entry cleanup_job_def Let_def case_prod_beta split: option.splits)
  then show ?thesis using ev by simp
qed

lemma cleanup_indexing_jobs_returns:
  assumes "models_exist w"
  shows "\<exists>jobs'. fst (cleanup_indexing_jobs jobs t w) = Inr jobs'"
proof -
  have l1: "fst (for_each cleanup_job jobs (jobs, w)) = Inr () \<and>
      evolves w (snd (snd (for_each cleanup_job jobs (jobs, w))))"
  proof (rule for_each_total [where P = "\<lambda>s. evolves w (snd s)"])
    fix entry and s :: "jobs \<times> World"
    assume "evolves w (snd s)"
    then show "fst (cleanup_job entry s) = Inr () \<and> evolves w (snd (snd (cleanup_job entry s)))"
      using cleanup_job_total [OF assms, of "snd s" entry "fst s"] by simp
  qed simp
  then obtain copy wa where a: "for_each cleanup_job jobs (jobs, w) = (Inr (), (copy, wa))"
    and ea: "evolves w wa"
    by (cases "for_each cleanup_job jobs (jobs, w)") auto
  have "fst (for_each (cleanup_connector jobs t) (connectors wa) wa) = Inr () \<and>
      evolves w (snd (for_each (cleanup_connector jobs t) (connectors wa) wa))"
  proof (rule for_each_total [where P = "evolves w"])
    fix c s assume "evolves w s"
    then show "fst (cleanup_connector jobs t c s) = Inr () \<and>
        evolves w (snd (cleanup_connector jobs t c s))"
      by (rule cleanup_connector_total [OF assms])
  qed (rule ea)
  then obtain w' where "for_each (cleanup_connector jobs t) (connectors wa) wa = (Inr (), w')"
    by (cases "for_each (cleanup_connector jobs t) (connectors wa) wa") auto
  then show ?thesis
    using a by (simp add: cleanup_indexing_jobs_def fetch_connectors_def)
qed


lemmas reaper_store_eval =
  reaper_store_def running_def job_in_def done_job_def models_exist_def
  attempt_embedding_model_def get_db_current_time_def
  total_seconds_four_hours total_seconds_three_hours

lemmas reaper_run_eval =
  cleanup_indexing_jobs_def cleanup_job_def cleanup_connector_def cleanup_in_progress_attempt_def
  get_inprogress_index_attempts_def fetch_connectors_def mark_run_failed_def
  mark_attempt_failed_def update_connector_credential_pair_def emit_def fail_row_def
  is_terminal_def get_index_attempt_def is_indexing_job_marked_as_finished_def set_cc_status_def
  Let_def



text \<open>
  C5 (amended). In a store whose attempt ids and connector ids are unique, let an
  attempt be IN_PROGRESS, tracked under handles none of which is done, and have as
  \<^verbatim>\<open>connector_id\<close> the id of a connector row. \<^verbatim>\<open>cleanup_indexing_jobs\<close> returns when
  every attempt has its embedding model; and whenever it returns: if \<^verbatim>\<open>total_seconds()\<close>
  of the time since the attempt's last update, the double nearest to the seconds elapsed,
  strictly exceeds \<open>60 * 60 * timeout_hours\<close>, the calls about the attempt are the
  cancellation of its handle and then \<^verbatim>\<open>mark_attempt_failed\<close> with the "frozen" reason,
  and its row is FAILED with that reason; otherwise there is no call about the attempt
  and its row is as it was. When the time since the last update is below \<open>2\<^sup>3\<^sup>4\<close> seconds
  in magnitude, the test is: the time since the last update strictly exceeds
  \<open>timeout_hours\<close> hours; in particular an elapsed time of exactly \<open>timeout_hours\<close> hours
  cancels nothing.
\<close>

theorem cleanup_indexing_jobs_stall_check:
  assumes "distinct (map a_id (index_attempts w))" and "distinct (map c_id (connectors w))"
    and "a \<in> set (index_attempts w)" and "a_status a = IN_PROGRESS"
    and "a_id a \<in> set (map fst existing_jobs)"
    and "list_all (\<lambda>entry. fst entry = a_id a \<longrightarrow> \<not> done_job (snd entry)) existing_jobs"
    and "connector_id a = Some cid" and "cid \<in> set (map c_id (connectors w))"
  shows "(models_exist w \<longrightarrow> (\<exists>jobs'. fst (cleanup_indexing_jobs existing_jobs t w) = Inr jobs'))
    \<and> ((\<exists>jobs'. fst (cleanup_indexing_jobs existing_jobs t w) = Inr jobs') \<longrightarrow>
         (total_seconds (get_db_current_time w - time_updated a) > of_int (60 * 60 * t) \<longrightarrow>
            calls_about (a_id a) (new_calls w (snd (cleanup_indexing_jobs existing_jobs t w))) =
              [JobCancel (a_id a), MarkAttemptFailed (a_id a) FROZEN_FAILURE_REASON] \<and>
            get_index_attempt (snd (cleanup_indexing_jobs existing_jobs t w)) (a_id a) =
              Some (a\<lparr>a_status := FAILED, error_msg := Some FROZEN_FAILURE_REASON,
                      time_updated := db_time w\<rparr>))
       \<and> (\<not> total_seconds (get_db_current_time w - time_updated a) > of_int (60 * 60 * t) \<longrightarrow>
            calls_about (a_id a) (new_calls w (snd (cleanup_indexing_jobs existing_jobs t w))) = [] \<and>
            get_index_attempt (snd (cleanup_indexing_jobs existing_jobs t w)) (a_id a) = Some a)
       \<and> (\<bar>get_db_current_time w - time_updated a\<bar> < 2 ^ 34 * 1000000 \<longrightarrow>
            (1000000 * (60 * 60 * t) < get_db_current_time w - time_updated a \<longrightarrow>
               calls_about (a_id a) (new_calls w (snd (cleanup_indexing_jobs existing_jobs t w))) =
                 [JobCancel (a_id a), MarkAttemptFailed (a_id a) FROZEN_FAILURE_REASON] \<and>
               get_index_attempt (snd (cleanup_indexing_jobs existing_jobs t w)) (a_id a) =
                 Some (a\<lparr>a_status := FAILED, error_msg := Some FROZEN_FAILURE_REASON,
                         time_updated := db_time w\<rparr>))
          \<and> (get_db_current_time w - time_updated a \<le> 1000000 * (60 * 60 * t) \<longrightarrow>
               calls_about (a_id a) (new_calls w (snd (cleanup_indexing_jobs existing_jobs t w))) = [] \<and>
               get_index_attempt (snd (cleanup_indexing_jobs existing_jobs t w)) (a_id a) = Some a)
          \<and> (get_db_current_time w - time_updated a = 1000000 * (60 * 60 * t) \<longrightarrow>
               calls_about (a_id a) (new_calls w (snd (cleanup_indexing_jobs existing_jobs t w))) = [])))"
proof -
  define td where "td = get_db_current_time w - time_updated a"
  define res where "res = cleanup_indexing_jobs existing_jobs t w"
  define cancelled where "cancelled \<longleftrightarrow>
      calls_about (a_id a) (new_calls w (snd res)) =
        [JobCancel (a_id a), MarkAttemptFailed (a_id a) FROZEN_FAILURE_REASON] \<and>
      get_index_attempt (snd res) (a_id a) =
        Some (a\<lparr>a_status := FAILED, error_msg := Some FROZEN_FAILURE_REASON,
                time_updated := db_time w\<rparr>)"
  define kept where "kept \<longleftrightarrow>
      calls_about (a_id a) (new_calls w (snd res)) = [] \<and>
      get_index_attempt (snd res) (a_id a) = Some a"
  have returns: "\<exists>jobs'. fst res = Inr jobs'" if "models_exist w"
    unfolding res_def using that by (rule cleanup_indexing_jobs_returns)
  have code: "(of_int (60 * 60 * t) < total_seconds td \<longrightarrow> cancelled) \<and>
      (\<not> of_int (60 * 60 * t) < total_seconds td \<longrightarrow> kept)"
    if ret: "\<exists>jobs'. fst res = Inr jobs'"
  proof -
    obtain jobs' w' where ok: "cleanup_indexing_jobs existing_jobs t w = (Inr jobs', w')"
      using ret unfolding res_def by (cases "cleanup_indexing_jobs existing_jobs t w") auto
    have nd: "\<And>job. (a_id a, job) \<in> set existing_jobs \<Longrightarrow> \<not> done_job job"
      using assms(6) by (auto simp: list_all_iff)
    note r = cleanup_stall_effects [OF assms(1-5) nd assms(7,8) ok]
    show ?thesis
      using r unfolding cancelled_def kept_def res_def ok td_def by simp
  qed
  have exact: "of_int (60 * 60 * t) < total_seconds td \<longleftrightarrow> 1000000 * (60 * 60 * t) < td"
    if "\<bar>td\<bar> < 2 ^ 34 * 1000000"
    using that by (rule total_seconds_less_iff)
  have k: "kept \<Longrightarrow> calls_about (a_id a) (new_calls w (snd res)) = []"
    by (simp add: kept_def)
  have "(models_exist w \<longrightarrow> (\<exists>jobs'. fst res = Inr jobs'))
    \<and> ((\<exists>jobs'. fst res = Inr jobs') \<longrightarrow>
         (total_seconds td > of_int (60 * 60 * t) \<longrightarrow> cancelled)
       \<and> (\<not> total_seconds td > of_int (60 * 60 * t) \<longrightarrow> kept)
       \<and> (\<bar>td\<bar> < 2 ^ 34 * 1000000 \<longrightarrow>
            (1000000 * (60 * 60 * t) < td \<longrightarrow> cancelled)
          \<and> (td \<le> 1000000 * (60 * 60 * t) \<longrightarrow> kept)
          \<and> (td = 1000000 * (60 * 60 * t) \<longrightarrow>
               calls_about (a_id a) (new_calls w (snd res)) = [])))"
    using returns code exact k by fastforce
  then show ?thesis
    unfolding cancelled_def kept_def res_def td_def .
qed

theorem cleanup_indexing_jobs_stall_check_witness:
  "models_exist (reaper_store [running 42 (Some 1) 10 0, running 43 (Some 1) 10 3600000000])
   \<and> 1000000 * (60 * 60 * 3) < get_db_current_time
          (reaper_store [running 42 (Some 1) 10 0, running 43 (Some 1) 10 3600000000]) -
        time_updated (running 42 (Some 1) 10 0)
   \<and> calls_about 42
        (new_calls (reaper_store [running 42 (Some 1) 10 0, running 43 (Some 1) 10 3600000000])
          (snd (cleanup_indexing_jobs [(42, job_in JobRunning), (43, job_in JobRunning)] 3
             (reaper_store [running 42 (Some 1) 10 0, running 43 (Some 1) 10 3600000000])))) =
       [JobCancel 42, MarkAttemptFailed 42 FROZEN_FAILURE_REASON]
   \<and> get_db_current_time
          (reaper_store [running 42 (Some 1) 10 0, running 43 (Some 1) 10 3600000000]) -
        time_updated (running 43 (Some 1) 10 3600000000) = 1000000 * (60 * 60 * 3)
   \<and> calls_about 43
        (new_calls (reaper_store [running 42 (Some 1) 10 0, running 43 (Some 1) 10 3600000000])
          (snd (cleanup_indexing_jobs [(42, job_in JobRunning), (43, job_in JobRunning)] 3
             (reaper_store [running 42 (Some 1) 10 0, running 43 (Some 1) 10 3600000000])))) = []
   \<and> get_index_attempt
        (snd (cleanup_indexing_jobs [(42, job_in JobRunning), (43, job_in JobRunning)] 3
           (reaper_store [running 42 (Some 1) 10 0, running 43 (Some 1) 10 3600000000]))) 43 =
       Some (running 43 (Some 1) 10 3600000000)"
proof -
  define S where "S = reaper_store [running 42 (Some 1) 10 0, running 43 (Some 1) 10 3600000000]"
  define J where "J = [(42 :: int, job_in JobRunning), (43, job_in JobRunning)]"
  have d: "distinct (map a_id (index_attempts S))" "distinct (map c_id (connectors S))"
    by (simp_all add: S_def reaper_store_eval)
  have me: "models_exist S"
    by (simp add: S_def reaper_store_eval)
  have a42: "running 42 (Some 1) 10 0 \<in> set (index_attempts S)"
    "a_status (running 42 (Some 1) 10 0) = IN_PROGRESS"
    "a_id (running 42 (Some 1) 10 0) \<in> set (map fst J)"
    "list_all (\<lambda>entry. fst entry = a_id (running 42 (Some 1) 10 0) \<longrightarrow> \<not> done_job (snd entry)) J"
    "connector_id (running 42 (Some 1) 10 0) = Some 1" "1 \<in> set (map c_id (connectors S))"
    by (simp_all add: S_def J_def reaper_store_eval)
  have a43: "running 43 (Some 1) 10 3600000000 \<in> set (index_attempts S)"
    "a_status (running 43 (Some 1) 10 3600000000) = IN_PROGRESS"
    "a_id (running 43 (Some 1) 10 3600000000) \<in> set (map fst J)"
    "list_all (\<lambda>entry. fst entry = a_id (running 43 (Some 1) 10 3600000000) \<longrightarrow>
        \<not> done_job (snd entry)) J"
    "connector_id (running 43 (Some 1) 10 3600000000) = Some 1"
    by (simp_all add: S_def J_def reaper_store_eval)
  have t42: "\<bar>get_db_current_time S - time_updated (running 42 (Some 1) 10 0)\<bar> < 2 ^ 34 * 1000000"
    "1000000 * (60 * 60 * 3) < get_db_current_time S - time_updated (running 42 (Some 1) 10 0)"
    by (simp_all add: S_def reaper_store_eval)
  have t43: "\<bar>get_db_current_time S - time_updated (running 43 (Some 1) 10 3600000000)\<bar>
      < 2 ^ 34 * 1000000"
    "get_db_current_time S - time_updated (running 43 (Some 1) 10 3600000000)
      = 1000000 * (60 * 60 * 3)"
    "get_db_current_time S - time_updated (running 43 (Some 1) 10 3600000000)
      \<le> 1000000 * (60 * 60 * 3)"
    by (simp_all add: S_def reaper_store_eval)
  have i: "a_id (running 42 (Some 1) 10 0) = 42" "a_id (running 43 (Some 1) 10 3600000000) = 43"
    by (simp_all add: running_def)
  note r42 = cleanup_indexing_jobs_stall_check [OF d a42, of 3]
  note r43 = cleanup_indexing_jobs_stall_check [OF d a43 a42(6), of 3]
  have ok: "\<exists>jobs'. fst (cleanup_indexing_jobs J 3 S) = Inr jobs'"
    using r42 [THEN conjunct1] me by blast
  note q42 = r42 [THEN conjunct2, THEN mp, OF ok, THEN conjunct2, THEN conjunct2, THEN mp,
      OF t42(1), THEN conjunct1, THEN mp, OF t42(2)]
  note q43 = r43 [THEN conjunct2, THEN mp, OF ok, THEN conjunct2, THEN conjunct2, THEN mp,
      OF t43(1), THEN conjunct2, THEN conjunct1, THEN mp, OF t43(3)]
  have e42: "calls_about 42 (new_calls S (snd (cleanup_indexing_jobs J 3 S))) =
      [JobCancel 42, MarkAttemptFailed 42 FROZEN_FAILURE_REASON]"
    using q42 unfolding i by simp
  have e43: "calls_about 43 (new_calls S (snd (cleanup_indexing_jobs J 3 S))) = []"
    "get_index_attempt (snd (cleanup_indexing_jobs J 3 S)) 43 =
      Some (running 43 (Some 1) 10 3600000000)"
    using q43 unfolding i by simp_all
  show ?thesis
    using me t42(2) e42 t43(2) e43 unfolding S_def [symmetric] J_def [symmetric] by simp
qed

text \<open>
  The claim as stated fails: a tracked IN_PROGRESS attempt whose handle is done is
  released and marked with the reason of the first loop, not cancelled, however long ago
  its last update was; a tracked attempt with no connector is never looked at; and with
  \<open>timeout_hours = 4772186\<close> an attempt whose last update is one microsecond more than
  \<open>timeout_hours\<close> hours ago is not cancelled, \<^verbatim>\<open>total_seconds()\<close> of that time being
  \<open>60 * 60 * 4772186\<close>.
\<close>

theorem cleanup_indexing_jobs_stall_check_counterexample:
  "running 42 (Some 1) 10 0 \<in> set (index_attempts (reaper_store [running 42 (Some 1) 10 0]))
   \<and> a_status (running 42 (Some 1) 10 0) = IN_PROGRESS
   \<and> a_id (running 42 (Some 1) 10 0) \<in> set (map fst [(42, job_in JobFinished)])
   \<and> 1000000 * (60 * 60 * 3) < get_db_current_time (reaper_store [running 42 (Some 1) 10 0]) -
         time_updated (running 42 (Some 1) 10 0)
   \<and> calls (snd (cleanup_indexing_jobs [(42, job_in JobFinished)] 3
         (reaper_store [running 42 (Some 1) 10 0]))) =
       [JobRelease 42, Log WARNING ''Marking in-progress attempt as failed'' [42],
        MarkAttemptFailed 42 UNEXPECTED_STATE_FAILURE_REASON,
        UpdateConnectorCredentialPair 1 1 FAILED]
   \<and> running 44 None 10 0 \<in> set (index_attempts (reaper_store [running 44 None 10 0]))
   \<and> a_id (running 44 None 10 0) \<in> set (map fst [(44, job_in JobRunning)])
   \<and> 1000000 * (60 * 60 * 3) < get_db_current_time (reaper_store [running 44 None 10 0]) -
         time_updated (running 44 None 10 0)
   \<and> cleanup_indexing_jobs [(44, job_in JobRunning)] 3 (reaper_store [running 44 None 10 0]) =
       (Inr [(44, job_in JobRunning)], reaper_store [running 44 None 10 0])
   \<and> running 45 (Some 1) 10 0 \<in> set (index_attempts
         ((reaper_store [running 45 (Some 1) 10 0])\<lparr>db_time := 17179869600000001\<rparr>))
   \<and> a_id (running 45 (Some 1) 10 0) \<in> set (map fst [(45, job_in JobRunning)])
   \<and> 1000000 * (60 * 60 * 4772186) <
         get_db_current_time ((reaper_store [running 45 (Some 1) 10 0])\<lparr>db_time := 17179869600000001\<rparr>) -
         time_updated (running 45 (Some 1) 10 0)
   \<and> cleanup_indexing_jobs [(45, job_in JobRunning)] 4772186
         ((reaper_store [running 45 (Some 1) 10 0])\<lparr>db_time := 17179869600000001\<rparr>) =
       (Inr [(45, job_in JobRunning)],
        (reaper_store [running 45 (Some 1) 10 0])\<lparr>db_time := 17179869600000001\<rparr>)"
proof -
  have "nearest_double (17179869600000001 / 1000000) = 17179869600"
    by (subst nearest_double_binade [of 34]) (simp_all add: round_half_even_def Let_def)
  then have "total_seconds 17179869600000001 = 17179869600"
    by (simp add: total_seconds_def)
  then show ?thesis
    by (simp add: reaper_store_eval reaper_run_eval)
qed

subsection \<open>The scheduler\<close>

lemma get_index_attempt_calls [simp]:
  "get_index_attempt (w\<lparr>calls := evs\<rparr>) i = get_index_attempt w i"
  by (simp add: get_index_attempt_def)

lemma fold_ongoing_attempt:
  "fold ongoing_attempt xs (ongoing, w) =
     (ongoing \<union> tracked_triples xs w, w\<lparr>calls := calls w @ missing_logs xs w\<rparr>)"
proof (induction xs arbitrary: ongoing w)
  case Nil
  then show ?case by (simp add: tracked_triples_def missing_logs_def)
next
  case (Cons x xs)
  obtain i job where x: "x = (i, job)" by (cases x)
  show ?case
  proof (cases "get_index_attempt w i")
    case None
    have "tracked_triples (x # xs) w = tracked_triples xs w"
      using None by (auto simp: tracked_triples_def x)
    then show ?thesis
      using None Cons.IH [of ongoing "emit (Log ERROR
        ''Unable to find IndexAttempt for ID when creating indexing jobs'' [i]) w"]
      by (simp add: x ongoing_attempt_def emit_def tracked_triples_def missing_logs_def)
  next
    case (Some a)
    have "tracked_triples (x # xs) w = insert (attempt_triple a) (tracked_triples xs w)"
      using Some by (auto simp: tracked_triples_def x)
    then show ?thesis
      using Some Cons.IH [of "insert (attempt_triple a) ongoing" w]
      by (simp add: x ongoing_attempt_def attempt_triple_def missing_logs_def)
  qed
qed

lemma create_index_attempt_fields [simp]:
  "db_time (create_index_attempt c k m w) = db_time w"
  "calls (create_index_attempt c k m w) = calls w @ [CreateIndexAttempt c k m]"
  by (simp_all add: create_index_attempt_def)

lemma get_last_attempt_create:
  "get_last_attempt c k m (create_index_attempt c' k' m' w) =
     (if (c', k', m') = (c, k, m)
      then Some \<lparr>a_id = fresh_attempt_id w, connector_id = Some c, credential_id = Some k,
                  embedding_model_id = m, a_status = NOT_STARTED, time_updated = db_time w,
                  error_msg = None\<rparr>
      else get_last_attempt c k m w)"
  by (auto simp: get_last_attempt_def create_index_attempt_def)

lemma get_last_attempt_update_cc [simp]:
  "get_last_attempt c k m (update_connector_credential_pair w c' k' st) = get_last_attempt c k m w"
  by (simp add: get_last_attempt_def)

lemma should_create_not_started:
  "a_status row = NOT_STARTED \<Longrightarrow> \<not> should_create_new_indexing connector (Some row) model w"
  by (simp add: should_create_new_indexing_def split: option.splits)

lemma create_for_frame:
  assumes "(c_id connector, credential, m_id model) \<noteq> (c, k, m)"
  shows "scheduler_frame c k m w (create_for ongoing connector credential model w)"
  using assms
  by (auto simp: scheduler_frame_def create_for_def Let_def get_last_attempt_create)

lemma scheduler_frame_refl [simp]: "scheduler_frame c k m w w"
  by (simp add: scheduler_frame_def)

lemma scheduler_frame_trans:
  "scheduler_frame c k m w w' \<Longrightarrow> scheduler_frame c k m w' w'' \<Longrightarrow> scheduler_frame c k m w w''"
  by (auto simp: scheduler_frame_def)

lemma create_for_scheduled:
  assumes "scheduled c k m w0 w"
  shows "scheduled c k m w0 (create_for ongoing connector credential model w)"
proof (cases "(c_id connector, credential, m_id model) = (c, k, m)")
  case True
  obtain row where "get_last_attempt c k m w = Some row" "a_status row = NOT_STARTED"
    using assms unfolding scheduled_def by blast
  then have "create_for ongoing connector credential model w = w"
    using True should_create_not_started [of row connector model w]
    by (auto simp: create_for_def Let_def)
  then show ?thesis using assms by simp
next
  case False
  have f: "scheduler_frame c k m w (create_for ongoing connector credential model w)"
    using False by (rule create_for_frame)
  obtain evs where evs: "calls w = calls w0 @ evs" "CreateIndexAttempt c k m \<in> set evs"
    using assms unfolding scheduled_def by blast
  obtain evs' where "calls (create_for ongoing connector credential model w) = calls w @ evs'"
    using f unfolding scheduler_frame_def by blast
  then have "calls (create_for ongoing connector credential model w) = calls w0 @ (evs @ evs')"
    "CreateIndexAttempt c k m \<in> set (evs @ evs')"
    using evs by simp_all
  then have "\<exists>e. calls (create_for ongoing connector credential model w) = calls w0 @ e \<and>
      CreateIndexAttempt c k m \<in> set e"
    by blast
  then show ?thesis
    using assms f unfolding scheduled_def scheduler_frame_def by simp
qed

lemma create_for_first:
  assumes "(Some (c_id connector), Some credential, m_id model) \<notin> ongoing"
    and "should_create_new_indexing connector
           (get_last_attempt (c_id connector) credential (m_id model) w) model w"
  shows "scheduled (c_id connector) credential (m_id model) w
           (create_for ongoing connector credential model w)"
  using assms
  by (auto simp: scheduled_def create_for_def Let_def get_last_attempt_create)

lemma fold_preserves:
  assumes "\<And>x s. x \<in> set xs \<Longrightarrow> P s \<Longrightarrow> P (f x s)" and "P s"
  shows "P (fold f xs s)"
  using assms by (induction xs arbitrary: s) simp_all

lemma should_create_db_time:
  "db_time w' = db_time w \<Longrightarrow>
   should_create_new_indexing connector last_index model w' =
   should_create_new_indexing connector last_index model w"
  by (simp add: should_create_new_indexing_def get_db_current_time_def Let_def
        split: option.splits)

lemma scheduled_after_frame:
  assumes "scheduler_frame c k m w w1" "scheduled c k m w1 w2"
  shows "scheduled c k m w w2"
proof -
  obtain e1 where e1: "calls w1 = calls w @ e1"
    using assms(1) unfolding scheduler_frame_def by blast
  obtain e2 where e2: "calls w2 = calls w1 @ e2" "CreateIndexAttempt c k m \<in> set e2"
    using assms(2) unfolding scheduled_def by blast
  have "calls w2 = calls w @ (e1 @ e2) \<and> CreateIndexAttempt c k m \<in> set (e1 @ e2)"
    using e1 e2 by simp
  then have "\<exists>e. calls w2 = calls w @ e \<and> CreateIndexAttempt c k m \<in> set e"
    by blast
  then show ?thesis
    using assms(2) unfolding scheduled_def by simp
qed

lemma models_loop_scheduled:
  "scheduled c k m w0 w \<Longrightarrow>
   scheduled c k m w0 (fold (create_for ongoing connector credential) ms w)"
  by (rule fold_preserves [where P = "scheduled c k m w0"]) (rule create_for_scheduled)

lemma credentials_loop_scheduled:
  "scheduled c k m w0 w \<Longrightarrow>
   scheduled c k m w0
     (fold (\<lambda>credential. fold (create_for ongoing connector credential) ms) ks w)"
  by (rule fold_preserves [where P = "scheduled c k m w0"]) (rule models_loop_scheduled)

lemma connectors_loop_scheduled:
  "scheduled c k m w0 w \<Longrightarrow>
   scheduled c k m w0
     (fold (\<lambda>connector. fold (\<lambda>credential. fold (create_for ongoing connector credential) ms)
        (c_credentials connector)) cs w)"
  by (rule fold_preserves [where P = "scheduled c k m w0"]) (rule credentials_loop_scheduled)

lemma models_loop_frame:
  assumes "\<And>model. model \<in> set ms \<Longrightarrow> (c_id connector, credential, m_id model) \<noteq> (c, k, m)"
  shows "scheduler_frame c k m w (fold (create_for ongoing connector credential) ms w)"
proof (rule fold_preserves [where P = "scheduler_frame c k m w"])
  fix model s assume "model \<in> set ms" "scheduler_frame c k m w s"
  then show "scheduler_frame c k m w (create_for ongoing connector credential model s)"
    using create_for_frame [OF assms, of model s ongoing] scheduler_frame_trans by blast
qed simp

lemma credentials_loop_frame:
  assumes "\<And>credential. credential \<in> set ks \<Longrightarrow> (c_id connector, credential) \<noteq> (c, k)"
  shows "scheduler_frame c k m w
     (fold (\<lambda>credential. fold (create_for ongoing connector credential) ms) ks w)"
proof (rule fold_preserves [where P = "scheduler_frame c k m w"])
  fix credential s assume "credential \<in> set ks" "scheduler_frame c k m w s"
  moreover have "scheduler_frame c k m s (fold (create_for ongoing connector credential) ms s)"
    if "credential \<in> set ks"
    using assms [OF that] by (intro models_loop_frame) auto
  ultimately show "scheduler_frame c k m w (fold (create_for ongoing connector credential) ms s)"
    using scheduler_frame_trans by blast
qed simp

lemma connectors_loop_frame:
  assumes "\<And>connector. connector \<in> set cs \<Longrightarrow> c_id connector \<noteq> c"
  shows "scheduler_frame c k m w
     (fold (\<lambda>connector. fold (\<lambda>credential. fold (create_for ongoing connector credential) ms)
        (c_credentials connector)) cs w)"
proof (rule fold_preserves [where P = "scheduler_frame c k m w"])
  fix connector s assume "connector \<in> set cs" "scheduler_frame c k m w s"
  moreover have "scheduler_frame c k m s
      (fold (\<lambda>credential. fold (create_for ongoing connector credential) ms)
         (c_credentials connector) s)"
    if "connector \<in> set cs"
    using assms [OF that] by (intro credentials_loop_frame) auto
  ultimately show "scheduler_frame c k m w
      (fold (\<lambda>credential. fold (create_for ongoing connector credential) ms)
         (c_credentials connector) s)"
    using scheduler_frame_trans by blast
qed simp

lemma models_loop_own:
  assumes f: "scheduler_frame (c_id connector) credential (m_id model) w w1"
    and m: "model \<in> set ms" "distinct (map m_id ms)"
    and n: "(Some (c_id connector), Some credential, m_id model) \<notin> ongoing"
    and s: "should_create_new_indexing connector
              (get_last_attempt (c_id connector) credential (m_id model) w) model w"
  shows "scheduled (c_id connector) credential (m_id model) w
           (fold (create_for ongoing connector credential) ms w1)"
proof -
  obtain ms1 ms2 where ms: "ms = ms1 @ model # ms2"
    using m(1) by (meson split_list)
  have "\<And>model'. model' \<in> set ms1 \<Longrightarrow> m_id model' \<noteq> m_id model"
    using m(2) unfolding ms by (fastforce simp: image_iff)
  then have "scheduler_frame (c_id connector) credential (m_id model) w1
      (fold (create_for ongoing connector credential) ms1 w1)"
    by (intro models_loop_frame) auto
  with f have f2: "scheduler_frame (c_id connector) credential (m_id model) w
      (fold (create_for ongoing connector credential) ms1 w1)"
    by (rule scheduler_frame_trans)
  define w2 where "w2 = fold (create_for ongoing connector credential) ms1 w1"
  have "should_create_new_indexing connector
      (get_last_attempt (c_id connector) credential (m_id model) w2) model w2"
    using s f2 should_create_db_time [of w2 w] unfolding w2_def scheduler_frame_def by simp
  then have "scheduled (c_id connector) credential (m_id model) w2
      (create_for ongoing connector credential model w2)"
    using n by (intro create_for_first)
  then have "scheduled (c_id connector) credential (m_id model) w
      (create_for ongoing connector credential model w2)"
    using f2 scheduled_after_frame unfolding w2_def by blast
  then have "scheduled (c_id connector) credential (m_id model) w
      (fold (create_for ongoing connector credential) ms2
         (create_for ongoing connector credential model w2))"
    by (rule models_loop_scheduled)
  then show ?thesis
    by (simp add: ms w2_def)
qed

lemma credentials_loop_own:
  assumes f: "scheduler_frame (c_id connector) credential (m_id model) w w1"
    and k: "credential \<in> set ks"
    and m: "model \<in> set ms" "distinct (map m_id ms)"
    and n: "(Some (c_id connector), Some credential, m_id model) \<notin> ongoing"
    and s: "should_create_new_indexing connector
              (get_last_attempt (c_id connector) credential (m_id model) w) model w"
  shows "scheduled (c_id connector) credential (m_id model) w
           (fold (\<lambda>credential. fold (create_for ongoing connector credential) ms) ks w1)"
proof -
  obtain ks1 ks2 where ks: "ks = ks1 @ credential # ks2" "credential \<notin> set ks1"
    using k by (meson split_list_first)
  have "scheduler_frame (c_id connector) credential (m_id model) w1
      (fold (\<lambda>credential. fold (create_for ongoing connector credential) ms) ks1 w1)"
    using ks(2) by (intro credentials_loop_frame) auto
  with f have "scheduler_frame (c_id connector) credential (m_id model) w
      (fold (\<lambda>credential. fold (create_for ongoing connector credential) ms) ks1 w1)"
    by (rule scheduler_frame_trans)
  then have "scheduled (c_id connector) credential (m_id model) w
      (fold (create_for ongoing connector credential) ms
         (fold (\<lambda>credential. fold (create_for ongoing connector credential) ms) ks1 w1))"
    using m n s by (rule models_loop_own)
  then have "scheduled (c_id connector) credential (m_id model) w
      (fold (\<lambda>credential. fold (create_for ongoing connector credential) ms) ks2
         (fold (create_for ongoing connector credential) ms
            (fold (\<lambda>credential. fold (create_for ongoing connector credential) ms) ks1 w1)))"
    by (rule credentials_loop_scheduled)
  then show ?thesis
    by (simp add: ks(1))
qed

lemma connectors_loop_own:
  assumes c: "connector \<in> set cs" "distinct (map c_id cs)"
    and k: "credential \<in> set (c_credentials connector)"
    and m: "model \<in> set ms" "distinct (map m_id ms)"
    and n: "(Some (c_id connector), Some credential, m_id model) \<notin> ongoing"
    and s: "should_create_new_indexing connector
              (get_last_attempt (c_id connector) credential (m_id model) w) model w"
  shows "scheduled (c_id connector) credential (m_id model) w
     (fold (\<lambda>connector. fold (\<lambda>credential. fold (create_for ongoing connector credential) ms)
        (c_credentials connector)) cs w)"
proof -
  obtain cs1 cs2 where cs: "cs = cs1 @ connector # cs2"
    using c(1) by (meson split_list)
  have "\<And>connector'. connector' \<in> set cs1 \<Longrightarrow> c_id connector' \<noteq> c_id connector"
    using c(2) unfolding cs by (fastforce simp: image_iff)
  then have "scheduler_frame (c_id connector) credential (m_id model) w
      (fold (\<lambda>connector. fold (\<lambda>credential. fold (create_for ongoing connector credential) ms)
        (c_credentials connector)) cs1 w)"
    by (rule connectors_loop_frame)
  then have "scheduled (c_id connector) credential (m_id model) w
      (fold (\<lambda>credential. fold (create_for ongoing connector credential) ms)
         (c_credentials connector)
         (fold (\<lambda>connector. fold (\<lambda>credential. fold (create_for ongoing connector credential) ms)
            (c_credentials connector)) cs1 w))"
    using k m n s by (rule credentials_loop_own)
  then have "scheduled (c_id connector) credential (m_id model) w
      (fold (\<lambda>connector. fold (\<lambda>credential. fold (create_for ongoing connector credential) ms)
          (c_credentials connector)) cs2
        (fold (\<lambda>credential. fold (create_for ongoing connector credential) ms)
           (c_credentials connector)
           (fold (\<lambda>connector. fold (\<lambda>credential. fold (create_for ongoing connector credential) ms)
              (c_credentials connector)) cs1 w)))"
    by (rule connectors_loop_scheduled)
  then show ?thesis
    by (simp add: cs)
qed

lemma find_member: "find P xs = Some x \<Longrightarrow> x \<in> set xs \<and> P x"
  by (auto simp: find_Some_iff in_set_conv_nth)

lemma scheduler_models_distinct:
  assumes d: "distinct (map m_id (embedding_models w))"
    and c: "get_current_db_embedding_model w = Inr current"
  shows "distinct (map m_id ([current] @ (case get_secondary_db_embedding_model w of
            None \<Rightarrow> [] | Some secondary \<Rightarrow> [secondary])))"
proof (cases "get_secondary_db_embedding_model w")
  case None
  then show ?thesis by simp
next
  case (Some secondary)
  have s: "secondary \<in> set (embedding_models w)" "m_status secondary = FUTURE"
    using Some find_member unfolding get_secondary_db_embedding_model_def by fastforce+
  have "find (\<lambda>m. m_status m = PRESENT) (embedding_models w) = Some current"
    using c unfolding get_current_db_embedding_model_def by (simp split: option.splits)
  then have p: "current \<in> set (embedding_models w)" "m_status current = PRESENT"
    using find_member by fastforce+
  have "current \<noteq> secondary"
    using s(2) p(2) by auto
  then have "m_id current \<noteq> m_id secondary"
    using d s(1) p(1) by (meson distinct_map inj_onD)
  then show ?thesis
    using Some by simp
qed

lemma scheduler_reads_calls [simp]:
  "get_last_attempt c k m (w\<lparr>calls := evs\<rparr>) = get_last_attempt c k m w"
  "get_current_db_embedding_model (w\<lparr>calls := evs\<rparr>) = get_current_db_embedding_model w"
  "get_secondary_db_embedding_model (w\<lparr>calls := evs\<rparr>) = get_secondary_db_embedding_model w"
  "fetch_connectors (w\<lparr>calls := evs\<rparr>) = fetch_connectors w"
  by (simp_all add: get_last_attempt_def get_current_db_embedding_model_def
        get_secondary_db_embedding_model_def fetch_connectors_def)

lemma create_indexing_jobs_schedules:
  assumes dc: "distinct (map c_id (connectors w))"
    and dm: "distinct (map m_id (embedding_models w))"
    and cur: "get_current_db_embedding_model w = Inr current"
    and c: "connector \<in> set (connectors w)"
    and k: "credential \<in> set (c_credentials connector)"
    and m: "model = current \<or> get_secondary_db_embedding_model w = Some model"
    and n: "(Some (c_id connector), Some credential, m_id model) \<notin> tracked_triples existing_jobs w"
    and s: "should_create_new_indexing connector
              (get_last_attempt (c_id connector) credential (m_id model) w) model w"
  shows "fst (create_indexing_jobs existing_jobs w) = Inr ()"
    and "\<exists>row. get_last_attempt (c_id connector) credential (m_id model)
            (snd (create_indexing_jobs existing_jobs w)) = Some row \<and> a_status row = NOT_STARTED"
    and "CreateIndexAttempt (c_id connector) credential (m_id model) \<in>
           set (new_calls w (snd (create_indexing_jobs existing_jobs w)))"
proof -
  define w1 where "w1 = w\<lparr>calls := calls w @ missing_logs existing_jobs w\<rparr>"
  define ms where "ms = [current] @ (case get_secondary_db_embedding_model w of
      None \<Rightarrow> [] | Some secondary \<Rightarrow> [secondary])"
  define w' where "w' = fold (\<lambda>connector. fold (\<lambda>credential.
      fold (create_for (tracked_triples existing_jobs w) connector credential) ms)
        (c_credentials connector)) (connectors w) w1"
  have o: "fold ongoing_attempt existing_jobs ({}, w) = (tracked_triples existing_jobs w, w1)"
    by (simp add: fold_ongoing_attempt w1_def)
  have r1: "get_current_db_embedding_model w1 = Inr current"
    "get_secondary_db_embedding_model w1 = get_secondary_db_embedding_model w"
    "fetch_connectors w1 = connectors w"
    using cur by (simp_all add: w1_def fetch_connectors_def)
  have run: "create_indexing_jobs existing_jobs w = (Inr (), w')"
    unfolding create_indexing_jobs_def o by (simp add: r1 Let_def ms_def w'_def)
  have mm: "model \<in> set ms"
    using m by (auto simp: ms_def)
  have dms: "distinct (map m_id ms)"
    unfolding ms_def using dm cur by (rule scheduler_models_distinct)
  have s1: "should_create_new_indexing connector
      (get_last_attempt (c_id connector) credential (m_id model) w1) model w1"
    using s should_create_db_time [of w1 w] by (simp add: w1_def)
  have c1: "connector \<in> set (connectors w1)" "distinct (map c_id (connectors w1))"
    using c dc by (simp_all add: w1_def)
  have "scheduled (c_id connector) credential (m_id model) w1 w'"
    using connectors_loop_own [OF c1 k mm dms n s1] by (simp add: w'_def w1_def)
  then obtain evs where row: "\<exists>row. get_last_attempt (c_id connector) credential (m_id model) w' =
      Some row \<and> a_status row = NOT_STARTED"
    and evs: "calls w' = calls w1 @ evs" "CreateIndexAttempt (c_id connector) credential (m_id model) \<in> set evs"
    unfolding scheduled_def by blast
  have "calls w' = calls w @ (missing_logs existing_jobs w @ evs)"
    using evs(1) by (simp add: w1_def)
  then have "new_calls w w' = missing_logs existing_jobs w @ evs"
    by (rule new_calls_append)
  then show "CreateIndexAttempt (c_id connector) credential (m_id model) \<in>
      set (new_calls w (snd (create_indexing_jobs existing_jobs w)))"
    using evs(2) by (simp add: run)
  show "fst (create_indexing_jobs existing_jobs w) = Inr ()"
    by (simp add: run)
  show "\<exists>row. get_last_attempt (c_id connector) credential (m_id model)
      (snd (create_indexing_jobs existing_jobs w)) = Some row \<and> a_status row = NOT_STARTED"
    using row by (simp add: run)
qed

text \<open>
  C9. \<^verbatim>\<open>create_indexing_jobs\<close>. A tracked attempt id for which \<^verbatim>\<open>get_index_attempt\<close>
  returns no row adds nothing to \<^verbatim>\<open>ongoing\<close>: the body of the first loop only logs an
  error, and after the loop \<^verbatim>\<open>ongoing\<close> holds exactly the triples of the tracked ids
  that have a row, the world being changed by one error line for each id without a row.
  So a triple of a connector, one of its credentials and the current or the secondary
  model, none of whose tracked attempts has a row, is not protected by the handles that
  are tracked: when \<^verbatim>\<open>_should_create_new_indexing\<close> holds for it,
  \<^verbatim>\<open>create_indexing_jobs\<close> returns, calls \<^verbatim>\<open>create_index_attempt\<close> for the triple, and
  the last attempt of the triple is then a NOT_STARTED row, whatever handles are tracked
  under ids without a row.
\<close>

theorem create_indexing_jobs_missing_row:
  assumes "distinct (map c_id (connectors w))" and "distinct (map m_id (embedding_models w))"
    and "get_current_db_embedding_model w = Inr current"
    and "connector \<in> set (connectors w)" and "credential \<in> set (c_credentials connector)"
    and "model = current \<or> get_secondary_db_embedding_model w = Some model"
    and "list_all (\<lambda>entry. case get_index_attempt w (fst entry) of
            None \<Rightarrow> True
          | Some a \<Rightarrow> attempt_triple a \<noteq> (Some (c_id connector), Some credential, m_id model))
          existing_jobs"
    and "should_create_new_indexing connector
           (get_last_attempt (c_id connector) credential (m_id model) w) model w"
  shows "(\<forall>i job ongoing. get_index_attempt w i = None \<longrightarrow>
            ongoing_attempt (i, job) (ongoing, w) =
              (ongoing, emit (Log ERROR
                 ''Unable to find IndexAttempt for ID when creating indexing jobs'' [i]) w))
    \<and> fold ongoing_attempt existing_jobs ({}, w) =
         (tracked_triples existing_jobs w, w\<lparr>calls := calls w @ missing_logs existing_jobs w\<rparr>)
    \<and> (Some (c_id connector), Some credential, m_id model) \<notin> tracked_triples existing_jobs w
    \<and> fst (create_indexing_jobs existing_jobs w) = Inr ()
    \<and> CreateIndexAttempt (c_id connector) credential (m_id model) \<in>
         set (new_calls w (snd (create_indexing_jobs existing_jobs w)))
    \<and> (\<exists>row. get_last_attempt (c_id connector) credential (m_id model)
            (snd (create_indexing_jobs existing_jobs w)) = Some row \<and> a_status row = NOT_STARTED)"
proof -
  have step: "\<forall>i job ongoing. get_index_attempt w i = None \<longrightarrow>
      ongoing_attempt (i, job) (ongoing, w) =
        (ongoing, emit (Log ERROR
           ''Unable to find IndexAttempt for ID when creating indexing jobs'' [i]) w)"
    by (simp add: ongoing_attempt_def)
  have loop: "fold ongoing_attempt existing_jobs ({}, w) =
      (tracked_triples existing_jobs w, w\<lparr>calls := calls w @ missing_logs existing_jobs w\<rparr>)"
    by (simp add: fold_ongoing_attempt)
  have n: "(Some (c_id connector), Some credential, m_id model) \<notin> tracked_triples existing_jobs w"
  proof
    assume "(Some (c_id connector), Some credential, m_id model) \<in> tracked_triples existing_jobs w"
    then obtain a entry where "entry \<in> set existing_jobs" "get_index_attempt w (fst entry) = Some a"
      "attempt_triple a = (Some (c_id connector), Some credential, m_id model)"
      unfolding tracked_triples_def by auto
    then show False
      using assms(7) by (auto simp: list_all_iff)
  qed
  note r = create_indexing_jobs_schedules [OF assms(1-6) n assms(8)]
  show ?thesis
    using step loop n r by blast
qed

theorem create_indexing_jobs_missing_row_witness:
  "get_index_attempt (reaper_store []) 7 = None
   \<and> should_create_new_indexing
        \<lparr>c_id = 1, c_name = ''web'', c_disabled = False, c_refresh_freq = Some 60,
          c_credentials = [1]\<rparr>
        (get_last_attempt 1 1 10 (reaper_store [])) \<lparr>m_id = 10, m_status = PRESENT\<rparr>
        (reaper_store [])
   \<and> fold ongoing_attempt [(7, job_in JobRunning)] ({}, reaper_store []) =
        ({}, emit (Log ERROR ''Unable to find IndexAttempt for ID when creating indexing jobs'' [7])
               (reaper_store []))
   \<and> fst (create_indexing_jobs [(7, job_in JobRunning)] (reaper_store [])) = Inr ()
   \<and> CreateIndexAttempt 1 1 10 \<in>
        set (new_calls (reaper_store [])
               (snd (create_indexing_jobs [(7, job_in JobRunning)] (reaper_store []))))
   \<and> (\<exists>row. get_last_attempt 1 1 10
          (snd (create_indexing_jobs [(7, job_in JobRunning)] (reaper_store []))) = Some row \<and>
        a_status row = NOT_STARTED)"
proof -
  define S where "S = reaper_store []"
  define C where "C = \<lparr>c_id = 1, c_name = ''web'', c_disabled = False, c_refresh_freq = Some 60,
      c_credentials = [1 :: int]\<rparr>"
  define M where "M = \<lparr>m_id = 10, m_status = PRESENT\<rparr>"
  define J where "J = [(7 :: int, job_in JobRunning)]"
  have h: "distinct (map c_id (connectors S))" "distinct (map m_id (embedding_models S))"
    "get_current_db_embedding_model S = Inr M"
    "C \<in> set (connectors S)" "1 \<in> set (c_credentials C)"
    "M = M \<or> get_secondary_db_embedding_model S = Some M"
    by (simp_all add: S_def C_def M_def reaper_store_def get_current_db_embedding_model_def)
  have g: "get_index_attempt S 7 = None"
    by (simp add: S_def reaper_store_def get_index_attempt_def)
  have i: "c_id C = 1" "m_id M = 10"
    by (simp_all add: C_def M_def)
  have t: "list_all (\<lambda>entry. case get_index_attempt S (fst entry) of
        None \<Rightarrow> True
      | Some a \<Rightarrow> attempt_triple a \<noteq> (Some (c_id C), Some 1, m_id M)) J"
    using g by (simp add: J_def)
  have s: "should_create_new_indexing C (get_last_attempt (c_id C) 1 (m_id M) S) M S"
    by (simp add: S_def C_def M_def reaper_store_def get_last_attempt_def
          should_create_new_indexing_def)
  note r = create_indexing_jobs_missing_row [OF h t s]
  have l: "fold ongoing_attempt J ({}, S) =
      ({}, emit (Log ERROR ''Unable to find IndexAttempt for ID when creating indexing jobs'' [7]) S)"
  proof -
    have "ongoing_attempt (7, job_in JobRunning) ({}, S) =
        ({}, emit (Log ERROR ''Unable to find IndexAttempt for ID when creating indexing jobs'' [7]) S)"
      using r g by blast
    then show ?thesis by (simp add: J_def)
  qed
  show ?thesis
    using g s r l unfolding i S_def [symmetric] C_def [symmetric] M_def [symmetric]
      J_def [symmetric]
    by blast
qed

subsection \<open>The supervisor loop\<close>

text \<open>The components add only calls of their own to the trace.\<close>

lemma grows_refl [simp]: "grows w w"
  by (simp add: grows_def)


















text \<open>The trace of one iteration, and the loop.\<close>

lemma summary_append [simp]:
  "entered (xs @ ys) = entered xs @ entered ys"
  "slept (xs @ ys) = slept xs @ slept ys"
  "caught (xs @ ys) = caught xs @ caught ys"
  "startups (xs @ ys) = startups xs @ startups ys"
  by (simp_all add: entered_def slept_def caught_def startups_def)

lemma summary_Nil [simp]:
  "entered [] = []" "slept [] = []" "caught [] = []" "startups [] = []"
  by (simp_all add: entered_def slept_def caught_def startups_def)

lemma summary_Cons [simp]:
  "entered (e # xs) = entries e @ entered xs"
  "slept (e # xs) = naps e @ slept xs"
  "caught (e # xs) = (if is_exception_log e then e # caught xs else caught xs)"
  "startups (e # xs) = (if e = MarkAllInProgressCCPairsFailed then e # startups xs else startups xs)"
  by (simp_all add: entered_def slept_def caught_def startups_def)




















end
